theory Spec2Isabelle
  imports Main
begin

section \<open>The C memory model of \<^verbatim>\<open>memory_benchmark.c\<close>\<close>

text \<open>
  The program works on \<^verbatim>\<open>int\<close> arrays obtained from \<^verbatim>\<open>malloc\<close>. The heap is a list of
  blocks: the block at address \<open>a\<close> (\<open>a > 0\<close>) is entry \<open>a - 1\<close> of the list, \<open>Some cells\<close>
  while it is live and \<open>None\<close> once it was freed. Address \<open>0\<close> is the null pointer.
  \<^verbatim>\<open>malloc\<close> appends a block, so a new address is always fresh and never null.
  A cell is \<open>None\<close> while its value is indeterminate (fresh from \<^verbatim>\<open>malloc\<close>).
  \<open>avail\<close> is the number of bytes \<^verbatim>\<open>malloc\<close> can still hand out: a request beyond it
  returns the null pointer. \<open>freed\<close> logs the blocks given back, in order.
\<close>

type_synonym addr = nat

definition NULL :: addr where
  "NULL = 0"

definition sizeof_int :: nat where
  "sizeof_int = 4"

definition INT_MAX :: int where
  "INT_MAX = 2147483647"

definition INT_MIN :: int where
  "INT_MIN = - 2147483648"

text \<open>\<^verbatim>\<open>size_t\<close> has 64 bits on the program's platform (LLP64).\<close>

definition SIZE_MOD :: nat where
  "SIZE_MOD = 2 ^ 64"

record mem =
  heap :: "int option list option list"
  avail :: nat
  freed :: "addr list"

text \<open>Undefined behaviour of the C program, by kind.\<close>

datatype ub =
    NullDeref
  | Dangling
  | OutOfBounds
  | Indeterminate
  | SignedOverflow
  | Overlap
  | NoSuchHandle

text \<open>
  A call either returns a value and the state after it, or runs into undefined
  behaviour: then nothing is returned to the caller, and the state is the one reached
  when it happened.
\<close>

datatype ('a, 's) res = Ok 'a 's | UB ub 's

definition blk :: "mem \<Rightarrow> addr \<Rightarrow> int option list option" where
  "blk s a = (if a = NULL \<or> length (heap s) < a then None else heap s ! (a - 1))"

definition set_blk :: "addr \<Rightarrow> int option list \<Rightarrow> mem \<Rightarrow> mem" where
  "set_blk a b s = s\<lparr>heap := (heap s)[a - 1 := Some b]\<rparr>"

text \<open>\<^verbatim>\<open>n * sizeof(int)\<close> for an \<^verbatim>\<open>int n\<close>: converted to \<^verbatim>\<open>size_t\<close>, the product wraps.\<close>

definition int_bytes :: "int \<Rightarrow> nat" where
  "int_bytes n = (nat (n mod int SIZE_MOD) * sizeof_int) mod SIZE_MOD"

definition malloc :: "nat \<Rightarrow> mem \<Rightarrow> addr \<times> mem" where
  "malloc n s =
     (if n \<le> avail s
      then (Suc (length (heap s)),
            s\<lparr>heap := heap s @ [Some (replicate (n div sizeof_int) None)],
              avail := avail s - n\<rparr>)
      else (NULL, s))"

definition drop_blk :: "addr \<Rightarrow> nat \<Rightarrow> mem \<Rightarrow> mem" where
  \<comment> \<open>the block at \<open>p\<close>, of \<open>n\<close> cells, goes back to the allocator\<close>
  "drop_blk p n s =
     s\<lparr>heap := (heap s)[p - 1 := None],
       avail := avail s + sizeof_int * n,
       freed := freed s @ [p]\<rparr>"

definition free_ptr :: "addr \<Rightarrow> mem \<Rightarrow> (unit, mem) res" where
  "free_ptr p s =
     (if p = NULL then Ok () s
      else (case blk s p of
        None \<Rightarrow> UB Dangling s
      | Some b \<Rightarrow> Ok () (drop_blk p (length b) s)))"

text \<open>\<^verbatim>\<open>p[i]\<close> read and \<^verbatim>\<open>p[i] = v\<close>, with \<^verbatim>\<open>int i\<close>.\<close>

definition load :: "addr \<Rightarrow> int \<Rightarrow> mem \<Rightarrow> (int, mem) res" where
  "load p i s =
     (if p = NULL then UB NullDeref s
      else (case blk s p of
        None \<Rightarrow> UB Dangling s
      | Some b \<Rightarrow>
          (if i < 0 \<or> int (length b) \<le> i then UB OutOfBounds s
           else (case b ! nat i of
             None \<Rightarrow> UB Indeterminate s
           | Some v \<Rightarrow> Ok v s))))"

definition store :: "addr \<Rightarrow> int \<Rightarrow> int \<Rightarrow> mem \<Rightarrow> (unit, mem) res" where
  "store p i v s =
     (if p = NULL then UB NullDeref s
      else (case blk s p of
        None \<Rightarrow> UB Dangling s
      | Some b \<Rightarrow>
          (if i < 0 \<or> int (length b) \<le> i then UB OutOfBounds s
           else Ok () (set_blk p (b[nat i := Some v]) s))))"

text \<open>\<^verbatim>\<open>memcpy(dst, src, n)\<close>: copies \<open>n\<close> bytes, that is the first \<open>n div 4\<close> cells.\<close>

definition memcpy :: "addr \<Rightarrow> addr \<Rightarrow> nat \<Rightarrow> mem \<Rightarrow> (unit, mem) res" where
  "memcpy dst src n s =
     (if dst = NULL \<or> src = NULL then UB NullDeref s
      else (case blk s dst of
        None \<Rightarrow> UB Dangling s
      | Some d \<Rightarrow>
          (case blk s src of
             None \<Rightarrow> UB Dangling s
           | Some c \<Rightarrow>
               (let k = n div sizeof_int in
                if length d < k \<or> length c < k then UB OutOfBounds s
                else if dst = src \<and> 0 < k then UB Overlap s
                else Ok () (set_blk dst (take k c @ drop k d) s)))))"

definition init_mem :: "nat \<Rightarrow> mem" where
  \<comment> \<open>an empty heap with \<open>cap\<close> bytes to hand out\<close>
  "init_mem cap = \<lparr>heap = [], avail = cap, freed = []\<rparr>"

section \<open>The copy-on-write array\<close>

definition ARRAY_SIZE :: int where
  "ARRAY_SIZE = 120000000"

record cow_array =
  data :: addr
  ref_count :: addr

text \<open>
  \<^verbatim>\<open>cow_create\<close> checks neither \<^verbatim>\<open>malloc\<close>: a null \<^verbatim>\<open>data\<close> is returned as it is, a null
  \<^verbatim>\<open>ref_count\<close> is dereferenced.
\<close>

definition cow_create :: "int \<Rightarrow> mem \<Rightarrow> (cow_array, mem) res" where
  "cow_create sz s =
     (let (d, s1) = malloc (int_bytes sz) s;
          (r, s2) = malloc sizeof_int s1
      in (case store r 0 1 s2 of
            UB e s' \<Rightarrow> UB e s'
          | Ok _ s3 \<Rightarrow> Ok \<lparr>data = d, ref_count = r\<rparr> s3))"

text \<open>\<^verbatim>\<open>(*(dest.ref_count))++\<close> on an \<^verbatim>\<open>int\<close>: overflow at \<open>INT_MAX\<close> is undefined.\<close>

definition cow_copy :: "cow_array \<Rightarrow> mem \<Rightarrow> (cow_array, mem) res" where
  "cow_copy src s =
     (let dest = src
      in (case load (ref_count dest) 0 s of
            UB e s' \<Rightarrow> UB e s'
          | Ok c _ \<Rightarrow>
              (if c = INT_MAX then UB SignedOverflow s
               else (case store (ref_count dest) 0 (c + 1) s of
                       UB e s' \<Rightarrow> UB e s'
                     | Ok _ s1 \<Rightarrow> Ok dest s1))))"

text \<open>
  \<^verbatim>\<open>cow_ensure_unique(cow_array* arr)\<close> and \<^verbatim>\<open>cow_free(cow_array* arr)\<close> work on the
  caller's handle through a pointer: the state they run on is the pair of the handle
  \<^verbatim>\<open>*arr\<close> and the heap. The first parameter of \<open>cow_ensure_unique_at\<close> is the value of
  the macro \<^verbatim>\<open>ARRAY_SIZE\<close>.
\<close>

definition fork_counter :: "cow_array \<Rightarrow> mem \<Rightarrow> (unit, cow_array \<times> mem) res" where
  \<comment> \<open>lines 95 to 100: decrement the old counter, allocate and set the new one\<close>
  "fork_counter arr1 s2 =
     (case load (ref_count arr1) 0 s2 of
        UB e s' \<Rightarrow> UB e (arr1, s')
      | Ok c2 _ \<Rightarrow>
          (if c2 = INT_MIN then UB SignedOverflow (arr1, s2)
           else (case store (ref_count arr1) 0 (c2 - 1) s2 of
                   UB e s' \<Rightarrow> UB e (arr1, s')
                 | Ok _ s3 \<Rightarrow>
                     (let (r, s4) = malloc sizeof_int s3;
                          arr2 = arr1\<lparr>ref_count := r\<rparr>
                      in (case store (ref_count arr2) 0 1 s4 of
                            UB e s' \<Rightarrow> UB e (arr2, s')
                          | Ok _ s5 \<Rightarrow> Ok () (arr2, s5))))))"

definition cow_ensure_unique_at ::
  "int \<Rightarrow> cow_array \<times> mem \<Rightarrow> (unit, cow_array \<times> mem) res" where
  "cow_ensure_unique_at asz st =
     (let (arr, s) = st
      in (case load (ref_count arr) 0 s of
            UB e s' \<Rightarrow> UB e (arr, s')
          | Ok c _ \<Rightarrow>
              (if 1 < c then
                 (let old_data = data arr;
                      (p, s1) = malloc (int_bytes asz) s;
                      arr1 = arr\<lparr>data := p\<rparr>
                  in (case memcpy (data arr1) old_data (int_bytes asz) s1 of
                        UB e s' \<Rightarrow> UB e (arr1, s')
                      | Ok _ s2 \<Rightarrow> fork_counter arr1 s2))
               else Ok () (arr, s))))"

definition cow_ensure_unique :: "cow_array \<times> mem \<Rightarrow> (unit, cow_array \<times> mem) res" where
  "cow_ensure_unique = cow_ensure_unique_at ARRAY_SIZE"

definition free_if_zero :: "cow_array \<Rightarrow> mem \<Rightarrow> (unit, cow_array \<times> mem) res" where
  \<comment> \<open>lines 114 to 117\<close>
  "free_if_zero arr s1 =
     (case load (ref_count arr) 0 s1 of
        UB e s' \<Rightarrow> UB e (arr, s')
      | Ok c1 _ \<Rightarrow>
          (if c1 = 0 then
             (case free_ptr (data arr) s1 of
                UB e s' \<Rightarrow> UB e (arr, s')
              | Ok _ s2 \<Rightarrow>
                  (case free_ptr (ref_count arr) s2 of
                     UB e s' \<Rightarrow> UB e (arr, s')
                   | Ok _ s3 \<Rightarrow> Ok () (arr, s3)))
           else Ok () (arr, s1)))"

definition cow_free :: "cow_array \<times> mem \<Rightarrow> (unit, cow_array \<times> mem) res" where
  "cow_free st =
     (let (arr, s) = st
      in (case load (ref_count arr) 0 s of
            UB e s' \<Rightarrow> UB e (arr, s')
          | Ok c _ \<Rightarrow>
              (if c = INT_MIN then UB SignedOverflow (arr, s)
               else (case store (ref_count arr) 0 (c - 1) s of
                       UB e s' \<Rightarrow> UB e (arr, s')
                     | Ok _ s1 \<Rightarrow> free_if_zero arr s1))))"

text \<open>What a handle lets its holder observe: the shared counter and the elements.\<close>

definition share_count :: "mem \<Rightarrow> cow_array \<Rightarrow> int option" where
  "share_count s a = (case load (ref_count a) 0 s of Ok c _ \<Rightarrow> Some c | UB _ _ \<Rightarrow> None)"

definition peek :: "mem \<Rightarrow> cow_array \<Rightarrow> int \<Rightarrow> ub + int" where
  "peek s a i = (case load (data a) i s of Ok v _ \<Rightarrow> Inr v | UB e _ \<Rightarrow> Inl e)"

section \<open>Scripts of operations on handles\<close>

text \<open>
  A driver holds a table of outstanding handles and calls the operations on them:
  \<open>Share i\<close> is \<^verbatim>\<open>cow_copy\<close> of handle \<open>i\<close>, the copy joining the table;
  \<open>EnsureUnique i\<close> is \<^verbatim>\<open>cow_ensure_unique\<close>; \<open>Write i idx v\<close> is the assignment
  \<^verbatim>\<open>h.data[idx] = v\<close> as \<^verbatim>\<open>benchmark_cow\<close> writes it; \<open>Release i\<close> is \<^verbatim>\<open>cow_free\<close>,
  after which the handle leaves the table. An operation on a handle that is not in the
  table stops the script with \<open>NoSuchHandle\<close>.
\<close>

datatype op = Share nat | EnsureUnique nat | Write nat int int | Release nat

type_synonym machine = "cow_array list \<times> mem"

fun step :: "int \<Rightarrow> op \<Rightarrow> machine \<Rightarrow> (unit, machine) res" where
  "step asz (Share i) (hs, s) =
     (if length hs \<le> i then UB NoSuchHandle (hs, s)
      else (case cow_copy (hs ! i) s of
              UB e s' \<Rightarrow> UB e (hs, s')
            | Ok d s' \<Rightarrow> Ok () (hs @ [d], s')))"
| "step asz (EnsureUnique i) (hs, s) =
     (if length hs \<le> i then UB NoSuchHandle (hs, s)
      else (case cow_ensure_unique_at asz (hs ! i, s) of
              UB e (a, s') \<Rightarrow> UB e (hs[i := a], s')
            | Ok _ (a, s') \<Rightarrow> Ok () (hs[i := a], s')))"
| "step asz (Write i idx v) (hs, s) =
     (if length hs \<le> i then UB NoSuchHandle (hs, s)
      else (case store (data (hs ! i)) idx v s of
              UB e s' \<Rightarrow> UB e (hs, s')
            | Ok _ s' \<Rightarrow> Ok () (hs, s')))"
| "step asz (Release i) (hs, s) =
     (if length hs \<le> i then UB NoSuchHandle (hs, s)
      else (case cow_free (hs ! i, s) of
              UB e (a, s') \<Rightarrow> UB e (hs[i := a], s')
            | Ok _ (a, s') \<Rightarrow> Ok () (take i hs @ drop (Suc i) hs, s')))"

fun run :: "int \<Rightarrow> op list \<Rightarrow> machine \<Rightarrow> (unit, machine) res" where
  "run asz [] m = Ok () m"
| "run asz (x # xs) m =
     (case step asz x m of
        UB e m' \<Rightarrow> UB e m'
      | Ok _ m' \<Rightarrow> run asz xs m')"

text \<open>
  A script of shares and releases only, each naming a handle that is outstanding when
  its turn comes; \<open>n\<close> is the number of outstanding handles at the start.
\<close>

fun share_release_script :: "nat \<Rightarrow> op list \<Rightarrow> bool" where
  "share_release_script n [] = True"
| "share_release_script n (Share i # xs) = (i < n \<and> share_release_script (Suc n) xs)"
| "share_release_script n (Release i # xs) = (i < n \<and> share_release_script (n - 1) xs)"
| "share_release_script n (_ # xs) = False"

text \<open>
  The state of a driver whose outstanding handles all are copies of \<open>a\<close>: while there is
  one, the payload is live and the counter holds their number; once there is none, the
  payload and the counter are gone, and they are the only blocks freed since the log
  was \<open>fr\<close>.
\<close>

definition shared_by :: "cow_array \<Rightarrow> addr list \<Rightarrow> machine \<Rightarrow> bool" where
  "shared_by a fr m =
     (case m of (hs, s) \<Rightarrow>
        set hs \<subseteq> {a} \<and> data a \<noteq> NULL \<and> data a \<noteq> ref_count a \<and>
        (if hs = []
         then blk s (data a) = None \<and> blk s (ref_count a) = None \<and>
              freed s = fr @ [data a, ref_count a]
         else blk s (data a) \<noteq> None \<and>
              blk s (ref_count a) = Some [Some (int (length hs))] \<and> freed s = fr))"

text \<open>The number of cells \<^verbatim>\<open>cow_ensure_unique\<close> allocates and copies for \<^verbatim>\<open>ARRAY_SIZE = asz\<close>.\<close>

definition fork_cells :: "int \<Rightarrow> nat" where
  "fork_cells asz = int_bytes asz div sizeof_int"

section \<open>The writes of \<^verbatim>\<open>benchmark_cow\<close>\<close>

text \<open>
  C's \<^verbatim>\<open>a % b\<close> on \<^verbatim>\<open>int\<close>, for \<open>b \<noteq> 0\<close>: the remainder of the division that truncates
  towards 0. The program divides by \<^verbatim>\<open>ARRAY_SIZE\<close> only.
\<close>

definition c_rem :: "int \<Rightarrow> int \<Rightarrow> int" where
  "c_rem a b = sgn a * (\<bar>a\<bar> mod \<bar>b\<bar>)"

text \<open>
  The \<^verbatim>\<open>j\<close> loop of \<^verbatim>\<open>benchmark_cow\<close> (lines 239 to 251) on one copy. Each iteration
  calls \<^verbatim>\<open>rand()\<close> twice, for the index and for the value: \<open>rs\<close> lists these pairs, one
  per iteration, and \<open>asz\<close> is \<^verbatim>\<open>ARRAY_SIZE\<close>. The loop returns \<^verbatim>\<open>made_unique\<close>.
\<close>

fun modify_copy ::
  "int \<Rightarrow> (int \<times> int) list \<Rightarrow> int \<Rightarrow> cow_array \<times> mem \<Rightarrow> (int, cow_array \<times> mem) res" where
  "modify_copy asz [] made_unique st = Ok made_unique st"
| "modify_copy asz ((r1, r2) # rs) made_unique st =
     (let index = c_rem r1 asz
      in (case (if made_unique = 0
                then (case cow_ensure_unique_at asz st of
                        UB e st' \<Rightarrow> UB e st'
                      | Ok _ st' \<Rightarrow> Ok 1 st')
                else Ok made_unique st) of
            UB e st' \<Rightarrow> UB e st'
          | Ok mu (arr, s) \<Rightarrow>
              (case store (data arr) index r2 s of
                 UB e s' \<Rightarrow> UB e (arr, s')
               | Ok _ s' \<Rightarrow> modify_copy asz rs mu (arr, s'))))"

text \<open>The same loop as a script on handle \<open>i\<close> of a driver's table.\<close>

definition modify_script :: "int \<Rightarrow> nat \<Rightarrow> (int \<times> int) list \<Rightarrow> op list" where
  "modify_script asz i rs =
     (if rs = [] then []
      else EnsureUnique i # map (\<lambda>(r1, r2). Write i (c_rem r1 asz) r2) rs)"

text \<open>
  A monitor on scripts: whenever the script is about to write through a handle, the
  counter of that handle's payload is 1. A script that stops in undefined behaviour is
  judged up to there.
\<close>

fun writes_exclusive :: "int \<Rightarrow> op list \<Rightarrow> machine \<Rightarrow> bool" where
  "writes_exclusive asz [] m = True"
| "writes_exclusive asz (x # xs) (hs, s) =
     ((case x of
         Write i idx v \<Rightarrow> (if i < length hs then share_count s (hs ! i) = Some 1 else True)
       | _ \<Rightarrow> True) \<and>
      (case step asz x (hs, s) of
         Ok _ m' \<Rightarrow> writes_exclusive asz xs m'
       | UB e m' \<Rightarrow> True))"

section \<open>containerStorage.c\<close>

text \<open>
  Layers are allocated one by one and referred to by pointer: the layer at pointer \<open>p\<close>
  is entry \<open>p\<close> of \<open>layer_heap\<close>. \<open>room\<close> is the number of \<^verbatim>\<open>malloc\<close> calls that will still
  succeed; the program checks none of them, so a failed one ends in a null dereference.
  A container's \<^verbatim>\<open>Layer** layers\<close> is the list of its layer pointers.
\<close>

record Layer =
  layer_id :: string
  size_mb :: nat
  content_hash :: string

record Container =
  container_id :: string
  layers :: "nat list"
  layer_count :: int

record store =
  layer_heap :: "Layer list"
  room :: nat

definition digit_char :: "nat \<Rightarrow> char" where
  "digit_char d = char_of (48 + d)"

function dec_digits :: "nat \<Rightarrow> string" where
  "dec_digits n = (if n < 10 then [digit_char n] else dec_digits (n div 10) @ [digit_char (n mod 10)])"
  by pat_completeness auto
termination
  by (relation "measure (\<lambda>n. n)") auto

declare dec_digits.simps [simp del]

definition show_int :: "int \<Rightarrow> string" where
  \<comment> \<open>what \<^verbatim>\<open>%d\<close> prints\<close>
  "show_int i = (if i < 0 then CHR ''-'' # dec_digits (nat (- i)) else dec_digits (nat i))"

definition alloc :: "store \<Rightarrow> store option" where
  \<comment> \<open>one \<^verbatim>\<open>malloc\<close>: \<open>None\<close> is the null pointer\<close>
  "alloc st = (if room st = 0 then None else Some (st\<lparr>room := room st - 1\<rparr>))"

definition new_layer :: "Layer \<Rightarrow> store \<Rightarrow> (nat, store) res" where
  \<comment> \<open>\<^verbatim>\<open>malloc(sizeof(Layer))\<close> followed by the writes of the three fields\<close>
  "new_layer l st =
     (case alloc st of
        None \<Rightarrow> UB NullDeref st
      | Some st1 \<Rightarrow> Ok (length (layer_heap st1)) (st1\<lparr>layer_heap := layer_heap st1 @ [l]\<rparr>))"

definition create_ubuntu_layer :: "store \<Rightarrow> (nat, store) res" where
  "create_ubuntu_layer st =
     new_layer \<lparr>layer_id = ''ubuntu:latest'', size_mb = 120,
                content_hash = ''sha256:ubuntu-base-layer''\<rparr> st"

definition create_container_layer :: "int \<Rightarrow> store \<Rightarrow> (nat, store) res" where
  "create_container_layer cid st =
     new_layer \<lparr>layer_id = ''container-'' @ show_int cid @ ''-layer'', size_mb = 3,
                content_hash = ''sha256:container-'' @ show_int cid @ ''-unique''\<rparr> st"

text \<open>
  The body of the loop of \<^verbatim>\<open>create_containers_no_cow\<close>: two allocations (the container,
  its array of one layer pointer), then the container's own Ubuntu layer.
\<close>

definition new_container_no_cow :: "int \<Rightarrow> store \<Rightarrow> (Container, store) res" where
  "new_container_no_cow i st =
     (case alloc st of
        None \<Rightarrow> UB NullDeref st
      | Some st1 \<Rightarrow>
          (case alloc st1 of
             None \<Rightarrow> UB NullDeref st1
           | Some st2 \<Rightarrow>
               (case create_ubuntu_layer st2 of
                  UB e st' \<Rightarrow> UB e st'
                | Ok l st3 \<Rightarrow>
                    Ok \<lparr>container_id = ''container-'' @ show_int (i + 1),
                        layers = [l], layer_count = 1\<rparr> st3)))"

text \<open>
  The body of the loop of \<^verbatim>\<open>create_containers_cow\<close>: the array has two layer pointers,
  the shared Ubuntu layer and a layer of the container's own.
\<close>

definition new_container_cow :: "int \<Rightarrow> nat \<Rightarrow> store \<Rightarrow> (Container, store) res" where
  "new_container_cow i shared_ubuntu st =
     (case alloc st of
        None \<Rightarrow> UB NullDeref st
      | Some st1 \<Rightarrow>
          (case alloc st1 of
             None \<Rightarrow> UB NullDeref st1
           | Some st2 \<Rightarrow>
               (case create_container_layer (i + 1) st2 of
                  UB e st' \<Rightarrow> UB e st'
                | Ok l st3 \<Rightarrow>
                    Ok \<lparr>container_id = ''container-'' @ show_int (i + 1),
                        layers = [shared_ubuntu, l], layer_count = 2\<rparr> st3)))"

text \<open>
  The loops \<^verbatim>\<open>for (int i = 0; i < count; i++)\<close>, from \<open>i\<close> on; the containers created so
  far are \<open>acc\<close>, in the order of the array.
\<close>

function create_no_cow_from ::
  "int \<Rightarrow> int \<Rightarrow> Container list \<Rightarrow> store \<Rightarrow> (Container list, store) res" where
  "create_no_cow_from i count acc st =
     (if i < count
      then (case new_container_no_cow i st of
              UB e st' \<Rightarrow> UB e st'
            | Ok c st' \<Rightarrow> create_no_cow_from (i + 1) count (acc @ [c]) st')
      else Ok acc st)"
  by pat_completeness auto
termination
  by (relation "measure (\<lambda>(i, count, acc, st). nat (count - i))") auto

declare create_no_cow_from.simps [simp del]

definition create_containers_no_cow :: "int \<Rightarrow> store \<Rightarrow> (Container list, store) res" where
  "create_containers_no_cow count st = create_no_cow_from 0 count [] st"

function create_cow_from ::
  "int \<Rightarrow> int \<Rightarrow> nat \<Rightarrow> Container list \<Rightarrow> store \<Rightarrow> (Container list, store) res" where
  "create_cow_from i count shared_ubuntu acc st =
     (if i < count
      then (case new_container_cow i shared_ubuntu st of
              UB e st' \<Rightarrow> UB e st'
            | Ok c st' \<Rightarrow> create_cow_from (i + 1) count shared_ubuntu (acc @ [c]) st')
      else Ok acc st)"
  by pat_completeness auto
termination
  by (relation "measure (\<lambda>(i, count, sh, acc, st). nat (count - i))") auto

declare create_cow_from.simps [simp del]

definition create_containers_cow :: "int \<Rightarrow> nat \<Rightarrow> store \<Rightarrow> (Container list, store) res" where
  "create_containers_cow count shared_ubuntu st = create_cow_from 0 count shared_ubuntu [] st"

text \<open>
  \<^verbatim>\<open>containers[i]->layers[j]->size_mb\<close>: reading past the array of containers, past a
  container's layers or through a pointer to no layer is undefined.
\<close>

definition layer_size :: "store \<Rightarrow> Container list \<Rightarrow> int \<Rightarrow> int \<Rightarrow> ub + nat" where
  "layer_size st containers i j =
     (if i < 0 \<or> int (length containers) \<le> i then Inl OutOfBounds
      else (let c = containers ! nat i
            in if j < 0 \<or> int (length (layers c)) \<le> j then Inl OutOfBounds
               else (let p = layers c ! nat j
                     in if length (layer_heap st) \<le> p then Inl Dangling
                        else Inr (size_mb (layer_heap st ! p)))))"

text \<open>The inner loops over \<open>j\<close>; \<open>tot\<close> is \<^verbatim>\<open>size_t total\<close>, which wraps.\<close>

function sum_layers ::
  "store \<Rightarrow> Container list \<Rightarrow> int \<Rightarrow> int \<Rightarrow> int \<Rightarrow> nat \<Rightarrow> ub + nat" where
  "sum_layers st containers i j n tot =
     (if j < n
      then (case layer_size st containers i j of
              Inl e \<Rightarrow> Inl e
            | Inr sz \<Rightarrow> sum_layers st containers i (j + 1) n ((tot + sz) mod SIZE_MOD))
      else Inr tot)"
  by pat_completeness auto
termination
  by (relation "measure (\<lambda>(st, containers, i, j, n, tot). nat (n - j))") auto

declare sum_layers.simps [simp del]

text \<open>
  The outer loops over \<open>i\<close>; \<open>j0\<close> is where the inner loop starts: 0 in
  \<^verbatim>\<open>calculate_storage_no_cow\<close>, 1 in \<^verbatim>\<open>calculate_storage_cow\<close>.
\<close>

function sum_containers ::
  "store \<Rightarrow> Container list \<Rightarrow> int \<Rightarrow> int \<Rightarrow> int \<Rightarrow> nat \<Rightarrow> ub + nat" where
  "sum_containers st containers j0 i count tot =
     (if i < count
      then (if i < 0 \<or> int (length containers) \<le> i then Inl OutOfBounds
            else (case sum_layers st containers i j0 (layer_count (containers ! nat i)) tot of
                    Inl e \<Rightarrow> Inl e
                  | Inr tot' \<Rightarrow> sum_containers st containers j0 (i + 1) count tot'))
      else Inr tot)"
  by pat_completeness auto
termination
  by (relation "measure (\<lambda>(st, containers, j0, i, count, tot). nat (count - i))") auto

declare sum_containers.simps [simp del]

definition calculate_storage_no_cow :: "store \<Rightarrow> Container list \<Rightarrow> int \<Rightarrow> ub + nat" where
  "calculate_storage_no_cow st containers count = sum_containers st containers 0 0 count 0"

definition calculate_storage_cow :: "store \<Rightarrow> Container list \<Rightarrow> int \<Rightarrow> nat \<Rightarrow> ub + nat" where
  "calculate_storage_cow st containers count shared_ubuntu =
     (if length (layer_heap st) \<le> shared_ubuntu then Inl Dangling
      else sum_containers st containers 1 0 count (size_mb (layer_heap st ! shared_ubuntu)))"

text \<open>
  \<^verbatim>\<open>malloc(sizeof(Container*) * CONTAINER_COUNT)\<close> in \<^verbatim>\<open>main\<close>: the array is written to
  when there is a container to create, so a null array is dereferenced then.
\<close>

definition alloc_array :: "int \<Rightarrow> store \<Rightarrow> ub + store" where
  "alloc_array n st =
     (case alloc st of
        None \<Rightarrow> (if 0 < n then Inl NullDeref else Inr st)
      | Some st' \<Rightarrow> Inr st')"

text \<open>
  The two totals \<^verbatim>\<open>main\<close> computes, \<^verbatim>\<open>storage_no_cow\<close> and \<^verbatim>\<open>storage_cow\<close>, for
  \<^verbatim>\<open>CONTAINER_COUNT = n\<close>.
\<close>

definition main_storage :: "int \<Rightarrow> store \<Rightarrow> ub + nat \<times> nat" where
  "main_storage n st =
     (case alloc_array n st of
        Inl e \<Rightarrow> Inl e
      | Inr st0 \<Rightarrow>
     (case create_containers_no_cow n st0 of
        UB e _ \<Rightarrow> Inl e
      | Ok containers_no_cow st1 \<Rightarrow>
          (case calculate_storage_no_cow st1 containers_no_cow n of
             Inl e \<Rightarrow> Inl e
           | Inr storage_no_cow \<Rightarrow>
               (case create_ubuntu_layer st1 of
                  UB e _ \<Rightarrow> Inl e
                | Ok shared_ubuntu st2 \<Rightarrow>
                    (case alloc_array n st2 of
                       Inl e \<Rightarrow> Inl e
                     | Inr st2' \<Rightarrow>
                    (case create_containers_cow n shared_ubuntu st2' of
                       UB e _ \<Rightarrow> Inl e
                     | Ok containers_cow st3 \<Rightarrow>
                         (case calculate_storage_cow st3 containers_cow n shared_ubuntu of
                            Inl e \<Rightarrow> Inl e
                          | Inr storage_cow \<Rightarrow> Inr (storage_no_cow, storage_cow))))))))"

text \<open>
  What the sums are sums of: the sizes of the layers of a container from position \<open>j0\<close>
  on, and a container whose \<^verbatim>\<open>layer_count\<close> is the length of its array of pointers to
  layers that exist.
\<close>

definition layers_mb :: "store \<Rightarrow> nat \<Rightarrow> Container \<Rightarrow> nat" where
  "layers_mb st j0 c = sum_list (map (\<lambda>p. size_mb (layer_heap st ! p)) (drop j0 (layers c)))"

definition container_ok :: "store \<Rightarrow> Container \<Rightarrow> bool" where
  "container_ok st c \<longleftrightarrow>
     layer_count c = int (length (layers c)) \<and> list_all (\<lambda>p. p < length (layer_heap st)) (layers c)"

text \<open>
  A container of the claim's scenario: the shared base first, then one layer of its
  own, of size \<open>L\<close>.
\<close>

definition base_and_own :: "store \<Rightarrow> nat \<Rightarrow> nat \<Rightarrow> Container \<Rightarrow> bool" where
  "base_and_own st base L c \<longleftrightarrow>
     container_ok st c \<and> length (layers c) = 2 \<and> layers c ! 0 = base \<and>
     size_mb (layer_heap st ! (layers c ! 1)) = L"

text \<open>A container as \<^verbatim>\<open>create_containers_no_cow\<close> builds it: one layer, of size \<open>B\<close>.\<close>

definition base_only :: "store \<Rightarrow> nat \<Rightarrow> Container \<Rightarrow> bool" where
  "base_only st B c \<longleftrightarrow>
     container_ok st c \<and> length (layers c) = 1 \<and>
     size_mb (layer_heap st ! (layers c ! 0)) = B"

section \<open>Concrete states used as test inputs\<close>

definition ex_handle :: cow_array where
  "ex_handle = \<lparr>data = 1, ref_count = 2\<rparr>"

definition ex_created :: mem where
  \<comment> \<open>the heap after \<^verbatim>\<open>cow_create(2)\<close> on an empty heap of 100 bytes\<close>
  "ex_created = \<lparr>heap = [Some [None, None], Some [Some 1]], avail = 88, freed = []\<rparr>"

definition ex_script :: "op list" where
  "ex_script = [Share 0, Share 1, Release 0, Release 1, Release 0]"

definition ex_shared3 :: mem where
  \<comment> \<open>a payload \<open>[0, 1, 2, 3]\<close> at address 1, its counter, 3, at address 2\<close>
  "ex_shared3 =
     \<lparr>heap = [Some [Some 0, Some 1, Some 2, Some 3], Some [Some 3]], avail = 80, freed = []\<rparr>"



definition ex_big :: "nat \<Rightarrow> nat \<Rightarrow> mem" where
  \<comment> \<open>a payload of \<open>n\<close> zeros at address 1, shared by two handles, \<open>left\<close> bytes left\<close>
  "ex_big n left =
     \<lparr>heap = [Some (replicate n (Some 0)), Some [Some 2]], avail = left, freed = []\<rparr>"

definition ex_one :: mem where
  \<comment> \<open>a payload \<open>[0, 1, 2, 3]\<close> with one handle\<close>
  "ex_one =
     \<lparr>heap = [Some [Some 0, Some 1, Some 2, Some 3], Some [Some 1]], avail = 80, freed = []\<rparr>"

definition ex_layers :: store where
  \<comment> \<open>a base layer of 120 MB and two layers of 3 MB\<close>
  "ex_layers =
     \<lparr>layer_heap =
        [\<lparr>layer_id = ''ubuntu:latest'', size_mb = 120, content_hash = ''sha256:ubuntu-base-layer''\<rparr>,
         \<lparr>layer_id = ''container-1-layer'', size_mb = 3,
            content_hash = ''sha256:container-1-unique''\<rparr>,
         \<lparr>layer_id = ''container-2-layer'', size_mb = 3,
            content_hash = ''sha256:container-2-unique''\<rparr>],
      room = 0\<rparr>"

definition ex_containers :: "Container list" where
  "ex_containers =
     [\<lparr>container_id = ''container-1'', layers = [0, 1], layer_count = 2\<rparr>,
      \<lparr>container_id = ''container-2'', layers = [0, 2], layer_count = 2\<rparr>]"

definition ex_base_store :: store where
  \<comment> \<open>the shared Ubuntu layer alone, and room for the allocations of ten containers\<close>
  "ex_base_store =
     \<lparr>layer_heap =
        [\<lparr>layer_id = ''ubuntu:latest'', size_mb = 120, content_hash = ''sha256:ubuntu-base-layer''\<rparr>],
      room = 30\<rparr>"

definition ex_overwritten :: mem where
  \<comment> \<open>\<open>ex_one\<close> after a share and a write of 99 at index 0 through the copy\<close>
  "ex_overwritten =
     \<lparr>heap = [Some [Some 99, Some 1, Some 2, Some 3], Some [Some 2]], avail = 80, freed = []\<rparr>"

definition ex_shared3_roomy :: mem where
  \<comment> \<open>\<open>ex_shared3\<close> with memory for a duplicate of \<^verbatim>\<open>ARRAY_SIZE\<close> elements\<close>
  "ex_shared3_roomy =
     \<lparr>heap = [Some [Some 0, Some 1, Some 2, Some 3], Some [Some 3]],
      avail = 500000000, freed = []\<rparr>"

section \<open>Facts about the memory model\<close>

lemma blk_NULL [simp]: "blk s NULL = None"
  by (simp add: blk_def)

lemma blk_set_blk:
  "blk s a \<noteq> None \<Longrightarrow> blk (set_blk a b s) a' = (if a' = a then Some b else blk s a')"
  by (auto simp: blk_def set_blk_def NULL_def nth_list_update split: if_splits)

lemma set_blk_fields [simp]:
  "avail (set_blk a b s) = avail s" "freed (set_blk a b s) = freed s"
  "length (heap (set_blk a b s)) = length (heap s)"
  by (simp_all add: set_blk_def)

lemma malloc_fail: "avail s < n \<Longrightarrow> malloc n s = (NULL, s)"
  by (simp add: malloc_def)

lemma malloc_ok:
  "n \<le> avail s \<Longrightarrow> malloc n s = (p, s') \<Longrightarrow>
   p = Suc (length (heap s)) \<and> p \<noteq> NULL \<and> blk s p = None \<and> avail s' = avail s - n \<and>
   freed s' = freed s \<and> length (heap s') = Suc (length (heap s)) \<and>
   (\<forall>a. blk s' a = (if a = p then Some (replicate (n div sizeof_int) None) else blk s a))"
  by (auto simp: malloc_def blk_def NULL_def nth_append)

lemma blk_live_bound: "blk s a = Some b \<Longrightarrow> a \<noteq> NULL \<and> a \<le> length (heap s)"
  by (auto simp: blk_def split: if_splits)

lemma load_Ok_iff:
  "load p i s = Ok v s' \<longleftrightarrow>
   s' = s \<and> (\<exists>b. blk s p = Some b \<and> 0 \<le> i \<and> i < int (length b) \<and> b ! nat i = Some v)"
  by (auto simp: load_def split: option.splits)

lemma store_Ok_iff:
  "store p i v s = Ok u s' \<longleftrightarrow>
   (\<exists>b. blk s p = Some b \<and> 0 \<le> i \<and> i < int (length b) \<and> s' = set_blk p (b[nat i := Some v]) s)"
  by (auto simp: store_def split: option.splits)

lemma share_count_eq:
  "share_count s a = Some c \<longleftrightarrow>
   (\<exists>b. blk s (ref_count a) = Some b \<and> b \<noteq> [] \<and> b ! 0 = Some c)"
  by (auto simp: share_count_def load_def split: option.splits res.splits)

lemma blk_drop_blk:
  "blk s p \<noteq> None \<Longrightarrow> blk (drop_blk p n s) a = (if a = p then None else blk s a)"
  by (auto simp: blk_def drop_blk_def NULL_def nth_list_update split: if_splits)

lemma drop_blk_fields [simp]:
  "avail (drop_blk p n s) = avail s + sizeof_int * n" "freed (drop_blk p n s) = freed s @ [p]"
  "length (heap (drop_blk p n s)) = length (heap s)"
  by (simp_all add: drop_blk_def)

lemma free_ptr_live: "blk s p = Some b \<Longrightarrow> free_ptr p s = Ok () (drop_blk p (length b) s)"
  by (auto simp: free_ptr_def)

lemma nth_all_same: "set hs \<subseteq> {a} \<Longrightarrow> i < length hs \<Longrightarrow> hs ! i = a"
  by (metis nth_mem subsetD singletonD)

lemma replicate_num: "replicate (numeral k) x = x # replicate (pred_numeral k) x"
  by (simp add: numeral_eq_Suc)

lemma list_update_num: "(x # xs)[numeral k := v] = x # xs[pred_numeral k := v]"
  by (simp add: numeral_eq_Suc)

lemmas eval_defs = cow_create_def cow_copy_def cow_free_def free_if_zero_def
  cow_ensure_unique_at_def fork_counter_def malloc_def free_ptr_def drop_blk_def load_def
  store_def memcpy_def blk_def set_blk_def int_bytes_def SIZE_MOD_def sizeof_int_def NULL_def
  INT_MAX_def INT_MIN_def init_mem_def share_count_def peek_def replicate_num list_update_num

section \<open>Scripts of shares and releases\<close>

lemma cow_create_ok:
  assumes "cow_create n s0 = Ok a s1" and "data a \<noteq> NULL"
  shows "shared_by a (freed s0) ([a], s1)"
  using assms
  by (auto simp: cow_create_def shared_by_def malloc_def store_def blk_def set_blk_def NULL_def
      sizeof_int_def nth_append Let_def split: if_splits option.splits)

lemma step_share:
  assumes "shared_by a fr (hs, s)" and "i < length hs" and "int (length hs) < INT_MAX"
  shows "\<exists>s'. step asz (Share i) (hs, s) = Ok () (hs @ [a], s') \<and> shared_by a fr (hs @ [a], s')"
proof -
  have "set hs \<subseteq> {a}" using assms(1) by (simp add: shared_by_def)
  then have hs: "hs \<noteq> []" "hs ! i = a" using assms(2) by (auto simp: nth_all_same)
  with assms show ?thesis
    by (auto simp: shared_by_def cow_copy_def load_def store_def blk_set_blk)
qed

lemma step_release:
  assumes "shared_by a fr (hs, s)" and "i < length hs" and "int (length hs) \<le> INT_MAX"
  shows "\<exists>s'. step asz (Release i) (hs, s) = Ok () (take i hs @ drop (Suc i) hs, s') \<and>
              shared_by a fr (take i hs @ drop (Suc i) hs, s')"
proof -
  let ?hs' = "take i hs @ drop (Suc i) hs"
  have "set hs \<subseteq> {a}" using assms(1) by (simp add: shared_by_def)
  then have hs: "hs \<noteq> []" "hs ! i = a" using assms(2) by (auto simp: nth_all_same)
  from assms hs have inv: "data a \<noteq> NULL" "data a \<noteq> ref_count a"
    "blk s (ref_count a) = Some [Some (int (length hs))]" "freed s = fr"
    and live: "blk s (data a) \<noteq> None"
    by (auto simp: shared_by_def)
  have sub: "set ?hs' \<subseteq> {a}"
    using assms(1) by (auto simp: shared_by_def dest: in_set_takeD in_set_dropD)
  have len: "length ?hs' = length hs - 1" using assms(2) by simp
  have pos: "0 < length hs" using hs by simp
  have nonmin: "int (length hs) \<noteq> INT_MIN" by (simp add: INT_MIN_def)
  let ?s1 = "set_blk (ref_count a) [Some (int (length hs) - 1)] s"
  have st: "store (ref_count a) 0 (int (length hs) - 1) s = Ok () ?s1"
    using inv by (simp add: store_Ok_iff)
  have ld: "load (ref_count a) 0 s = Ok (int (length hs)) s"
    using inv by (simp add: load_Ok_iff)
  have b1: "blk ?s1 (ref_count a) = Some [Some (int (length hs) - 1)]"
    "blk ?s1 (data a) = blk s (data a)"
    using inv by (simp_all add: blk_set_blk)
  have ld1: "load (ref_count a) 0 ?s1 = Ok (int (length hs) - 1) ?s1"
    using b1 by (simp add: load_Ok_iff)
  show ?thesis
  proof (cases "length hs = 1")
    case False
    with pos have "length ?hs' \<noteq> 0" unfolding len by arith
    then have ne: "?hs' \<noteq> []" by (simp only: length_0_conv not_False_eq_True)
    have nz: "int (length hs) - 1 \<noteq> 0" using False by simp
    have cf: "cow_free (a, s) = Ok () (a, ?s1)"
      using ld st ld1 nonmin nz by (simp add: cow_free_def free_if_zero_def)
    have stp: "step asz (Release i) (hs, s) = Ok () (?hs', ?s1)"
      using cf hs assms(2) by simp
    have "int (length ?hs') = int (length hs) - 1"
      unfolding len using pos by arith
    then have "shared_by a fr (?hs', ?s1)"
      using ne sub inv b1 live by (simp add: shared_by_def)
    with stp show ?thesis by blast
  next
    case True
    then have "length ?hs' = 0" unfolding len by simp
    then have e: "?hs' = []" by (simp only: length_0_conv)
    obtain b where b: "blk ?s1 (data a) = Some b" using b1 live by auto
    let ?s2 = "drop_blk (data a) (length b) ?s1"
    have f1: "free_ptr (data a) ?s1 = Ok () ?s2"
      using b by (simp add: free_ptr_live)
    have b2: "blk ?s2 (ref_count a) = Some [Some (int (length hs) - 1)]" "blk ?s2 (data a) = None"
      using b b1 inv by (simp_all add: blk_drop_blk)
    let ?s3 = "drop_blk (ref_count a) 1 ?s2"
    have f2: "free_ptr (ref_count a) ?s2 = Ok () ?s3"
      using b2 by (simp add: free_ptr_live)
    have b3: "blk ?s3 (ref_count a) = None" "blk ?s3 (data a) = None"
      using b2 inv by (simp_all add: blk_drop_blk)
    have fr3: "freed ?s3 = fr @ [data a, ref_count a]" using inv by simp
    have z: "int (length hs) - 1 = 0" using True by simp
    have cf: "cow_free (a, s) = Ok () (a, ?s3)"
      using ld st ld1 nonmin z f1 f2
      by (simp add: cow_free_def free_if_zero_def)
    have stp: "step asz (Release i) (hs, s) = Ok () (?hs', ?s3)"
      using cf hs assms(2) by simp
    have "shared_by a fr (?hs', ?s3)"
      unfolding e using b3 fr3 inv by (simp add: shared_by_def)
    with stp show ?thesis by blast
  qed
qed

lemma run_share_release:
  assumes "share_release_script (length hs) ops"
    and "int (length hs) + int (length ops) \<le> INT_MAX"
    and "shared_by a fr (hs, s)"
  shows "\<exists>hs' s'. run asz ops (hs, s) = Ok () (hs', s') \<and> shared_by a fr (hs', s')"
  using assms
proof (induction ops arbitrary: hs s)
  case Nil
  then show ?case by simp
next
  case (Cons x xs)
  show ?case
  proof (cases x)
    case (Share i)
    with Cons.prems have i: "i < length hs" and rest: "share_release_script (length (hs @ [a])) xs"
      by simp_all
    from Cons.prems(2) have "int (length hs) < INT_MAX" by simp
    from step_share[OF Cons.prems(3) i this, of asz]
    obtain s1 where s1: "step asz (Share i) (hs, s) = Ok () (hs @ [a], s1)"
      "shared_by a fr (hs @ [a], s1)" by blast
    have "int (length (hs @ [a])) + int (length xs) \<le> INT_MAX" using Cons.prems(2) by simp
    from Cons.IH[OF rest this s1(2)] s1(1) Share show ?thesis by simp
  next
    case (Release i)
    let ?hs' = "take i hs @ drop (Suc i) hs"
    from Release Cons.prems have i: "i < length hs" and rest0: "share_release_script (length hs - 1) xs"
      by simp_all
    have len: "length ?hs' = length hs - 1" using i by simp
    from Cons.prems(2) have "int (length hs) \<le> INT_MAX" by simp
    from step_release[OF Cons.prems(3) i this, of asz]
    obtain s1 where s1: "step asz (Release i) (hs, s) = Ok () (?hs', s1)"
      "shared_by a fr (?hs', s1)" by blast
    have r: "share_release_script (length ?hs') xs" using rest0 len by simp
    have "int (length ?hs') + int (length xs) \<le> INT_MAX" using Cons.prems(2) len by simp
    from Cons.IH[OF r this s1(2)] s1(1) Release show ?thesis by simp
  next
    case (EnsureUnique i)
    with Cons.prems show ?thesis by simp
  next
    case (Write i idx v)
    with Cons.prems show ?thesis by simp
  qed
qed

section \<open>Facts about the fork\<close>

lemma fork_cells_nat: "0 \<le> n \<Longrightarrow> n < 2 ^ 62 \<Longrightarrow> fork_cells n = nat n"
proof -
  assume a: "0 \<le> n" "n < 2 ^ 62"
  then have m: "n mod 2 ^ 64 = n" by simp
  have "nat n * 4 < 2 ^ 64" using a by (simp add: nat_less_iff)
  then show ?thesis using m by (simp add: fork_cells_def int_bytes_def SIZE_MOD_def sizeof_int_def)
qed


lemma memcpy_Ok:
  assumes "blk s dst = Some d" and "blk s src = Some c" and "dst \<noteq> src"
    and "n div sizeof_int \<le> length d" and "n div sizeof_int \<le> length c"
  shows "memcpy dst src n s =
           Ok () (set_blk dst (take (n div sizeof_int) c @ drop (n div sizeof_int) d) s)"
proof -
  from assms(1,2) have "dst \<noteq> NULL" "src \<noteq> NULL" by auto
  with assms show ?thesis by (simp add: memcpy_def Let_def)
qed

lemma malloc_Ok_eq:
  "n \<le> avail s \<Longrightarrow>
   malloc n s = (Suc (length (heap s)),
                 s\<lparr>heap := heap s @ [Some (replicate (n div sizeof_int) None)],
                   avail := avail s - n\<rparr>)"
  by (simp add: malloc_def)

lemma ensure_unique_fork:
  assumes cnt: "share_count s a = Some c" and shared: "1 < c"
    and pay: "blk s (data a) = Some xs" and "data a \<noteq> ref_count a"
    and src: "fork_cells asz \<le> length xs"
    and room: "int_bytes asz + sizeof_int \<le> avail s"
  shows "\<exists>s'. cow_ensure_unique_at asz (a, s) =
             Ok () (\<lparr>data = Suc (length (heap s)), ref_count = Suc (Suc (length (heap s)))\<rparr>, s') \<and>
           blk s' (Suc (length (heap s))) = Some (take (fork_cells asz) xs) \<and>
           blk s' (Suc (Suc (length (heap s)))) = Some [Some 1] \<and>
           blk s' (data a) = Some xs \<and>
           share_count s' a = Some (c - 1) \<and>
           (\<forall>p. p \<le> length (heap s) \<longrightarrow> p \<noteq> ref_count a \<longrightarrow> blk s' p = blk s p) \<and>
           length (heap s') = length (heap s) + 2 \<and>
           avail s' = avail s - int_bytes asz - sizeof_int \<and> freed s' = freed s"
proof -
  let ?n = "int_bytes asz" and ?k = "fork_cells asz"
  let ?p = "Suc (length (heap s))"
  from cnt obtain rb where rb: "blk s (ref_count a) = Some rb" "rb \<noteq> []" "rb ! 0 = Some c"
    by (auto simp: share_count_eq)
  have ld0: "load (ref_count a) 0 s = Ok c s" using rb by (simp add: load_Ok_iff)
  obtain s1 where m1: "malloc ?n s = (?p, s1)" by (simp add: malloc_Ok_eq room[THEN add_leD1])
  have n1: "?n \<le> avail s" using room by simp
  note mo1 = malloc_ok[OF n1 m1]
  have h1: "length (heap s1) = ?p" and a1: "avail s1 = avail s - ?n" and f1: "freed s1 = freed s"
    and b1: "\<And>x. blk s1 x = (if x = ?p then Some (replicate ?k None) else blk s x)"
    using mo1 by (simp_all add: fork_cells_def)
  have dne: "data a \<noteq> ?p" "ref_count a \<noteq> ?p"
    using blk_live_bound[OF pay] blk_live_bound[OF rb(1)] by auto
  let ?s2 = "set_blk ?p (take ?k xs) s1"
  have "memcpy ?p (data a) ?n s1 = Ok () (set_blk ?p (take ?k xs @ drop ?k (replicate ?k None)) s1)"
    using memcpy_Ok[of s1 ?p "replicate ?k None" "data a" xs ?n] b1 pay dne src
    by (simp add: fork_cells_def)
  then have mc: "memcpy ?p (data a) ?n s1 = Ok () ?s2" by simp
  have b2: "\<And>x. blk ?s2 x = (if x = ?p then Some (take ?k xs) else blk s x)"
    using b1 by (simp add: blk_set_blk)
  have ld2: "load (ref_count a) 0 ?s2 = Ok c ?s2" using rb b2 dne by (simp add: load_Ok_iff)
  let ?s3 = "set_blk (ref_count a) (rb[0 := Some (c - 1)]) ?s2"
  have st3: "store (ref_count a) 0 (c - 1) ?s2 = Ok () ?s3"
    using rb b2 dne by (simp add: store_Ok_iff)
  have b3: "\<And>x. blk ?s3 x = (if x = ref_count a then Some (rb[0 := Some (c - 1)])
                               else if x = ?p then Some (take ?k xs) else blk s x)"
    using b2 rb dne by (simp add: blk_set_blk)
  have h3: "length (heap ?s3) = ?p" "avail ?s3 = avail s - ?n" "freed ?s3 = freed s"
    using h1 a1 f1 by simp_all
  let ?r = "Suc ?p"
  have n4: "sizeof_int \<le> avail ?s3" using room h3 by simp
  obtain s4 where m4: "malloc sizeof_int ?s3 = (?r, s4)"
    using malloc_Ok_eq[OF n4] h3(1) by simp
  note mo4 = malloc_ok[OF n4 m4]
  have h4: "length (heap s4) = ?r"
    and a4: "avail s4 = avail s - ?n - sizeof_int" and f4: "freed s4 = freed s"
    using mo4 h3 by simp_all
  have b4: "\<And>x. blk s4 x = (if x = ?r then Some [None] else blk ?s3 x)"
    using mo4 by (simp add: sizeof_int_def)
  let ?s5 = "set_blk ?r [Some 1] s4"
  have st5: "store ?r 0 1 s4 = Ok () ?s5" using b4 by (simp add: store_Ok_iff NULL_def)
  have b5: "\<And>x. blk ?s5 x = (if x = ?r then Some [Some 1] else blk ?s3 x)"
    using b4 by (simp add: blk_set_blk)
  have rne: "data a \<noteq> ?r" "ref_count a \<noteq> ?r"
    using blk_live_bound[OF pay] blk_live_bound[OF rb(1)] by auto
  have nmin: "c \<noteq> INT_MIN" using shared by (simp add: INT_MIN_def)
  have fc: "fork_counter (a\<lparr>data := ?p\<rparr>) ?s2 =
      Ok () (\<lparr>data = ?p, ref_count = ?r\<rparr>, ?s5)"
    using ld2 nmin st3 m4 st5 by (simp add: fork_counter_def)
  have eu: "cow_ensure_unique_at asz (a, s) = Ok () (\<lparr>data = ?p, ref_count = ?r\<rparr>, ?s5)"
    using ld0 shared m1 mc fc by (simp add: cow_ensure_unique_at_def)
  have sc: "share_count ?s5 a = Some (c - 1)"
    using b5 b3 rne rb by (simp add: share_count_eq)
  have "blk ?s5 ?p = Some (take ?k xs)" "blk ?s5 ?r = Some [Some 1]" "blk ?s5 (data a) = Some xs"
    "\<forall>p. p \<le> length (heap s) \<longrightarrow> p \<noteq> ref_count a \<longrightarrow> blk ?s5 p = blk s p"
    "length (heap ?s5) = length (heap s) + 2" "avail ?s5 = avail s - ?n - sizeof_int"
    "freed ?s5 = freed s"
    using b5 b3 rne dne pay assms(4) h4 a4 f4 by simp_all
  with eu sc show ?thesis by blast
qed


lemma fork_counter_Ok:
  assumes "fork_counter a1 s2 = Ok () (a', s')"
  shows "share_count s' a' = Some 1 \<and> data a' = data a1 \<and> length (heap s') = Suc (length (heap s2))"
  using assms
  by (auto simp: fork_counter_def Let_def store_Ok_iff load_Ok_iff share_count_eq malloc_def
      blk_set_blk 
      split: res.splits if_splits prod.splits)

lemma ensure_unique_Ok:
  assumes "cow_ensure_unique_at asz (a, s) = Ok () (a', s')"
  shows "\<exists>c. share_count s a = Some c \<and>
     (if 1 < c then share_count s' a' = Some 1 \<and> length (heap s') = length (heap s) + 2
      else a' = a \<and> s' = s)"
proof -
  from assms obtain c where ld: "load (ref_count a) 0 s = Ok c s"
    by (auto simp: cow_ensure_unique_at_def load_Ok_iff split: res.splits)
  then have sc: "share_count s a = Some c" by (simp add: share_count_def)
  show ?thesis
  proof (cases "1 < c")
    case False
    with assms ld sc show ?thesis by (auto simp: cow_ensure_unique_at_def)
  next
    case True
    obtain p s1 where m: "malloc (int_bytes asz) s = (p, s1)" by (cases "malloc (int_bytes asz) s")
    from assms ld True m obtain s2 where
      mc: "memcpy p (data a) (int_bytes asz) s1 = Ok () s2"
      and fc: "fork_counter (a\<lparr>data := p\<rparr>) s2 = Ok () (a', s')"
      by (auto simp: cow_ensure_unique_at_def Let_def split: res.splits)
    from mc have "p \<noteq> NULL" "length (heap s2) = length (heap s1)"
      by (auto simp: memcpy_def Let_def split: if_splits option.splits)
    with m have "length (heap s2) = Suc (length (heap s))"
      by (auto simp: malloc_def split: if_splits)
    with fork_counter_Ok[OF fc] sc True show ?thesis by simp
  qed
qed

lemma peek_eq: "blk s' (data b) = blk s (data b) \<Longrightarrow> peek s' b j = peek s b j"
  by (simp add: peek_def load_def split: option.splits)

lemma int_bytes_nat: "0 \<le> n \<Longrightarrow> n < 2 ^ 62 \<Longrightarrow> int_bytes n = sizeof_int * nat n"
proof -
  assume a: "0 \<le> n" "n < 2 ^ 62"
  then have m: "n mod 2 ^ 64 = n" by simp
  have "nat n * 4 < 2 ^ 64" using a by (simp add: nat_less_iff)
  then show ?thesis using m by (simp add: int_bytes_def SIZE_MOD_def sizeof_int_def)
qed

lemma ARRAY_SIZE_bytes: "int_bytes ARRAY_SIZE = 480000000" "fork_cells ARRAY_SIZE = 120000000"
  by (simp_all add: fork_cells_def int_bytes_def ARRAY_SIZE_def SIZE_MOD_def sizeof_int_def)

lemma fork_no_payload:
  assumes "share_count s a = Some c" and "1 < c" and "avail s < int_bytes asz"
  shows "cow_ensure_unique_at asz (a, s) = UB NullDeref (a\<lparr>data := NULL\<rparr>, s)"
proof -
  from assms(1) have "load (ref_count a) 0 s = Ok c s"
    by (auto simp: share_count_def split: res.splits simp: load_Ok_iff)
  with assms(2,3) show ?thesis
    by (simp add: cow_ensure_unique_at_def malloc_fail memcpy_def)
qed

lemma fork_out_of_bounds:
  assumes "share_count s a = Some c" and "1 < c" and "blk s (data a) = Some xs"
    and "length xs < fork_cells asz" and "int_bytes asz \<le> avail s"
  shows "\<exists>s1. cow_ensure_unique_at asz (a, s) =
           UB OutOfBounds (a\<lparr>data := Suc (length (heap s))\<rparr>, s1)"
proof -
  let ?p = "Suc (length (heap s))"
  from assms(1) have ld: "load (ref_count a) 0 s = Ok c s"
    by (auto simp: share_count_def split: res.splits simp: load_Ok_iff)
  obtain s1 where m: "malloc (int_bytes asz) s = (?p, s1)"
    by (simp add: malloc_Ok_eq assms(5))
  note mo = malloc_ok[OF assms(5) m]
  have ne: "data a \<noteq> ?p" "data a \<noteq> NULL" using blk_live_bound[OF assms(3)] by auto
  have b1: "blk s1 ?p = Some (replicate (fork_cells asz) None)" "blk s1 (data a) = Some xs"
    using mo ne assms(3) by (simp_all add: fork_cells_def)
  have "memcpy ?p (data a) (int_bytes asz) s1 = UB OutOfBounds s1"
    using b1 ne assms(4) by (simp add: memcpy_def Let_def NULL_def fork_cells_def)
  with ld assms(2) m show ?thesis
    by (simp add: cow_ensure_unique_at_def)
qed

text \<open>
  The fork followed by a write, for any value \<open>asz\<close> of \<^verbatim>\<open>ARRAY_SIZE\<close>: the payload must
  have at least that many cells.
\<close>

lemma fork_isolation_at:
  assumes "share_count s a = Some k" and "2 \<le> k"
    and "blk s (data a) = Some xs" and "data a \<noteq> ref_count a"
    and "fork_cells asz \<le> length xs"
    and "int_bytes asz + sizeof_int \<le> avail s"
    and "0 \<le> i" and "i < int (fork_cells asz)"
  shows "\<exists>a' s' s''. cow_ensure_unique_at asz (a, s) = Ok () (a', s') \<and>
           store (data a') i v s' = Ok () s'' \<and>
           (\<forall>b j. data b = data a \<longrightarrow> peek s'' b j = peek s b j) \<and>
           share_count s'' a = Some (k - 1) \<and> peek s'' a' i = Inr v"
proof -
  let ?p = "Suc (length (heap s))"
  let ?a' = "\<lparr>data = ?p, ref_count = Suc ?p\<rparr>"
  have "1 < k" using assms(2) by simp
  from ensure_unique_fork[OF assms(1) this assms(3,4,5,6)]
  obtain s' where eu: "cow_ensure_unique_at asz (a, s) = Ok () (?a', s')"
    and new: "blk s' ?p = Some (take (fork_cells asz) xs)"
    and old: "blk s' (data a) = Some xs"
    and cnt: "share_count s' a = Some (k - 1)"
    by blast
  let ?new = "(take (fork_cells asz) xs)[nat i := Some v]"
  let ?s'' = "set_blk ?p ?new s'"
  have len: "length (take (fork_cells asz) xs) = fork_cells asz" using assms(5) by simp
  have st: "store (data ?a') i v s' = Ok () ?s''"
    using new len assms(7,8) by (simp add: store_Ok_iff)
  have ne: "data a \<noteq> ?p" "ref_count a \<noteq> ?p"
    using blk_live_bound[OF assms(3)] assms(1) blk_live_bound[of s "ref_count a"]
    by (auto simp: share_count_eq)
  have b'': "\<And>x. blk ?s'' x = (if x = ?p then Some ?new else blk s' x)"
    using new by (simp add: blk_set_blk)
  have unchanged: "\<forall>b j. data b = data a \<longrightarrow> peek ?s'' b j = peek s b j"
    using b'' ne old assms(3) by (auto intro!: peek_eq)
  have cnt'': "share_count ?s'' a = Some (k - 1)"
    using cnt b'' ne by (simp add: share_count_eq)
  have "nat i < length (take (fork_cells asz) xs)" using len assms(7,8) by simp
  then have mine: "peek ?s'' ?a' i = Inr v"
    using b'' assms(7,8) len by (simp add: peek_def load_def NULL_def)
  from eu st unchanged cnt'' mine show ?thesis by blast
qed

section \<open>Facts about writes\<close>

lemma c_rem_range: "0 \<le> r \<Longrightarrow> 0 < b \<Longrightarrow> 0 \<le> c_rem r b \<and> c_rem r b < b"
  by (cases "r = 0") (simp_all add: c_rem_def)

lemma share_count_cong:
  "blk s' (ref_count a) = blk s (ref_count a) \<Longrightarrow> share_count s' a = share_count s a"
  by (simp add: share_count_def load_def split: option.splits)

lemma store_keeps_count:
  assumes "store (data a) idx v s = Ok u s'" and "data a \<noteq> ref_count a"
  shows "share_count s' a = share_count s a"
proof -
  from assms obtain b where "blk s (data a) = Some b" "s' = set_blk (data a) (b[nat idx := Some v]) s"
    by (auto simp: store_Ok_iff)
  with assms(2) have "blk s' (ref_count a) = blk s (ref_count a)" by (simp add: blk_set_blk)
  then show ?thesis by (rule share_count_cong)
qed

lemma ensure_unique_excl:
  assumes ok: "cow_ensure_unique_at asz (a, s) = Ok () (a', s')"
    and c: "share_count s a = Some c" "1 \<le> c" and ne: "data a \<noteq> ref_count a"
  shows "share_count s' a' = Some 1 \<and> data a' \<noteq> ref_count a'"
proof (cases "1 < c")
  case False
  with ensure_unique_Ok[OF ok] c ne show ?thesis by auto
next
  case True
  from c(1) have ld: "load (ref_count a) 0 s = Ok c s"
    by (auto simp: share_count_def split: res.splits simp: load_Ok_iff)
  obtain p s1 where m: "malloc (int_bytes asz) s = (p, s1)" by (cases "malloc (int_bytes asz) s")
  from ok ld True m obtain s2 where
    mc: "memcpy p (data a) (int_bytes asz) s1 = Ok () s2"
    and fc: "fork_counter (a\<lparr>data := p\<rparr>) s2 = Ok () (a', s')"
    by (auto simp: cow_ensure_unique_at_def Let_def split: res.splits)
  from mc have "p \<noteq> NULL" "length (heap s2) = length (heap s1)" "blk s2 p \<noteq> None"
    by (auto simp: memcpy_def Let_def blk_set_blk split: if_splits option.splits)
  then have pb: "p \<le> length (heap s2)" using blk_live_bound[of s2 p] by auto
  from fc have "ref_count a' = Suc (length (heap s2)) \<and> data a' = p"
    by (auto simp: fork_counter_def Let_def store_Ok_iff load_Ok_iff malloc_def
      split: res.splits if_splits prod.splits)
  with pb fork_counter_Ok[OF fc] show ?thesis by auto
qed

lemma writes_after_exclusive:
  assumes "i < length hs" and "share_count s (hs ! i) = Some 1"
    and "data (hs ! i) \<noteq> ref_count (hs ! i)"
  shows "writes_exclusive asz (map (\<lambda>(idx, v). Write i idx v) ws) (hs, s)"
  using assms
proof (induction ws arbitrary: s)
  case Nil
  then show ?case by simp
next
  case (Cons w ws)
  obtain idx v where w: "w = (idx, v)" by (cases w)
  show ?case
  proof (cases "store (data (hs ! i)) idx v s")
    case (UB e s')
    with Cons.prems w show ?thesis by simp
  next
    case (Ok u s')
    from store_keeps_count[OF Ok Cons.prems(3)] Cons.prems(2)
    have "share_count s' (hs ! i) = Some 1" by simp
    from Cons.IH[OF Cons.prems(1) this Cons.prems(3)] Ok Cons.prems w
    show ?thesis by simp
  qed
qed

lemma guarded_writes_exclusive:
  assumes "i < length hs" and "share_count s (hs ! i) = Some c" and "1 \<le> c"
    and "data (hs ! i) \<noteq> ref_count (hs ! i)"
  shows "writes_exclusive asz (EnsureUnique i # map (\<lambda>(idx, v). Write i idx v) ws) (hs, s)"
proof (cases "cow_ensure_unique_at asz (hs ! i, s)")
  case (UB e st)
  with assms(1) show ?thesis by (cases st) simp
next
  case (Ok u st)
  obtain a' s' where st: "st = (a', s')" by (cases st)
  from ensure_unique_excl[OF Ok[unfolded st, simplified] assms(2,3,4)]
  have "share_count s' (hs[i := a'] ! i) = Some 1"
    "data (hs[i := a'] ! i) \<noteq> ref_count (hs[i := a'] ! i)"
    using assms(1) by simp_all
  from writes_after_exclusive[OF _ this, of asz ws] assms(1) Ok st
  show ?thesis by simp
qed

text \<open>The \<^verbatim>\<open>j\<close> loop of \<^verbatim>\<open>benchmark_cow\<close> on handle \<open>i\<close> is the run of its script.\<close>

lemma modify_copy_writes:
  assumes "i < length hs" and "mu \<noteq> 0"
  shows "run asz (map (\<lambda>(r1, r2). Write i (c_rem r1 asz) r2) rs) (hs, s) =
           (case modify_copy asz rs mu (hs ! i, s) of
              Ok _ (a', s') \<Rightarrow> Ok () (hs[i := a'], s')
            | UB e (a', s') \<Rightarrow> UB e (hs[i := a'], s'))"
  using assms
proof (induction rs arbitrary: s)
  case Nil
  then show ?case by simp
next
  case (Cons x rs)
  obtain r1 r2 where x: "x = (r1, r2)" by (cases x)
  show ?case
  proof (cases "store (data (hs ! i)) (c_rem r1 asz) r2 s")
    case (UB e s')
    with Cons.prems x show ?thesis by simp
  next
    case (Ok u s')
    with Cons.IH[OF Cons.prems, of s'] Cons.prems x show ?thesis by simp
  qed
qed

lemma modify_copy_is_script:
  assumes "i < length hs"
  shows "run asz (modify_script asz i rs) (hs, s) =
           (case modify_copy asz rs 0 (hs ! i, s) of
              Ok _ (a', s') \<Rightarrow> Ok () (hs[i := a'], s')
            | UB e (a', s') \<Rightarrow> UB e (hs[i := a'], s'))"
proof (cases rs)
  case Nil
  then show ?thesis by (simp add: modify_script_def)
next
  case (Cons x rs')
  obtain r1 r2 where x: "x = (r1, r2)" by (cases x)
  show ?thesis
  proof (cases "cow_ensure_unique_at asz (hs ! i, s)")
    case (UB e st)
    with assms Cons x show ?thesis by (cases st) (simp add: modify_script_def)
  next
    case (Ok u st)
    obtain a' s' where st: "st = (a', s')" by (cases st)
    have i': "i < length (hs[i := a'])" using assms by simp
    have "modify_copy asz rs 0 (hs ! i, s) = modify_copy asz rs 1 (a', s')"
      using Ok st Cons x by simp
    moreover have "run asz (modify_script asz i rs) (hs, s) =
        run asz (map (\<lambda>(r1, r2). Write i (c_rem r1 asz) r2) rs) (hs[i := a'], s')"
      using Ok st Cons assms by (simp add: modify_script_def)
    ultimately show ?thesis
      using modify_copy_writes[OF i', of 1 asz rs s'] assms
      by (simp cong: res.case_cong)
  qed
qed

section \<open>Facts about the storage sums\<close>

lemma layer_size_ok:
  assumes "i < length cs" and "j < length (layers (cs ! i))"
    and "layers (cs ! i) ! j < length (layer_heap st)"
  shows "layer_size st cs (int i) (int j) = Inr (size_mb (layer_heap st ! (layers (cs ! i) ! j)))"
  using assms by (simp add: layer_size_def Let_def)

lemma sum_layers_eq:
  assumes "i < length cs" and "list_all (\<lambda>p. p < length (layer_heap st)) (layers (cs ! i))"
    and "j \<le> length (layers (cs ! i))" and "tot < SIZE_MOD"
  shows "sum_layers st cs (int i) (int j) (int (length (layers (cs ! i)))) tot =
           Inr ((tot + layers_mb st j (cs ! i)) mod SIZE_MOD)"
  using assms(3,4)
proof (induction "length (layers (cs ! i)) - j" arbitrary: j tot)
  case 0
  then have "j = length (layers (cs ! i))" by simp
  with 0 show ?case by (subst sum_layers.simps) (simp add: layers_mb_def)
next
  case (Suc n)
  let ?ls = "layers (cs ! i)"
  from Suc have j: "j < length ?ls" by simp
  then have "?ls ! j < length (layer_heap st)"
    using assms(2) by (simp add: list_all_length)
  note sz = layer_size_ok[OF assms(1) j this]
  have d: "drop j ?ls = ?ls ! j # drop (Suc j) ?ls" using j by (simp add: Cons_nth_drop_Suc)
  have n: "n = length ?ls - Suc j" using Suc(2) by simp
  have lt: "(tot + size_mb (layer_heap st ! (?ls ! j))) mod SIZE_MOD < SIZE_MOD"
    by (simp add: SIZE_MOD_def)
  have "sum_layers st cs (int i) (int j) (int (length ?ls)) tot =
        sum_layers st cs (int i) (int (Suc j)) (int (length ?ls))
          ((tot + size_mb (layer_heap st ! (?ls ! j))) mod SIZE_MOD)"
    using j sz by (subst sum_layers.simps) (simp add: add.commute)
  also have "\<dots> = Inr (((tot + size_mb (layer_heap st ! (?ls ! j))) mod SIZE_MOD +
        layers_mb st (Suc j) (cs ! i)) mod SIZE_MOD)"
    using Suc(1)[OF n _ lt] j by simp
  also have "\<dots> = Inr ((tot + layers_mb st j (cs ! i)) mod SIZE_MOD)"
    by (simp add: layers_mb_def d mod_add_left_eq add.assoc)
  finally show ?case .
qed

lemma sum_containers_eq:
  assumes "list_all (container_ok st) cs" and "i \<le> length cs" and "tot < SIZE_MOD"
  shows "sum_containers st cs (int j0) (int i) (int (length cs)) tot =
           Inr ((tot + sum_list (map (layers_mb st j0) (drop i cs))) mod SIZE_MOD)"
  using assms(2,3)
proof (induction "length cs - i" arbitrary: i tot)
  case 0
  then show ?case by (subst sum_containers.simps) simp
next
  case (Suc n)
  from Suc have i: "i < length cs" by simp
  then have ok: "container_ok st (cs ! i)" using assms(1) by (simp add: list_all_length)
  let ?c = "cs ! i"
  have d: "drop i cs = ?c # drop (Suc i) cs" using i by (simp add: Cons_nth_drop_Suc)
  have n: "n = length cs - Suc i" using Suc(2) by simp
  show ?case
  proof (cases "j0 \<le> length (layers ?c)")
    case True
    from ok have lc: "layer_count ?c = int (length (layers ?c))"
      and ps: "list_all (\<lambda>p. p < length (layer_heap st)) (layers ?c)"
      by (simp_all add: container_ok_def)
    note sl = sum_layers_eq[OF i ps True Suc(4)]
    have lt: "(tot + layers_mb st j0 ?c) mod SIZE_MOD < SIZE_MOD" by (simp add: SIZE_MOD_def)
    have "sum_containers st cs (int j0) (int i) (int (length cs)) tot =
          sum_containers st cs (int j0) (int (Suc i)) (int (length cs))
            ((tot + layers_mb st j0 ?c) mod SIZE_MOD)"
      using i sl lc by (subst sum_containers.simps) (simp add: add.commute)
    also have "\<dots> = Inr (((tot + layers_mb st j0 ?c) mod SIZE_MOD +
          sum_list (map (layers_mb st j0) (drop (Suc i) cs))) mod SIZE_MOD)"
      using Suc(1)[OF n _ lt] i by simp
    also have "\<dots> = Inr ((tot + sum_list (map (layers_mb st j0) (drop i cs))) mod SIZE_MOD)"
      by (simp add: d mod_add_left_eq add.assoc)
    finally show ?thesis .
  next
    case False
    from ok have lc: "layer_count ?c = int (length (layers ?c))" by (simp add: container_ok_def)
    have z: "layers_mb st j0 ?c = 0" using False by (simp add: layers_mb_def)
    have sl: "sum_layers st cs (int i) (int j0) (int (length (layers ?c))) tot = Inr tot"
      using False by (subst sum_layers.simps) simp
    have "sum_containers st cs (int j0) (int i) (int (length cs)) tot =
          sum_containers st cs (int j0) (int (Suc i)) (int (length cs)) tot"
      using i sl lc by (subst sum_containers.simps) (simp add: add.commute)
    also have "\<dots> = Inr ((tot + sum_list (map (layers_mb st j0) (drop (Suc i) cs))) mod SIZE_MOD)"
      using Suc(1)[OF n _ Suc(4)] i by simp
    finally show ?thesis by (simp add: d z)
  qed
qed

lemma sum_list_const: "list_all (\<lambda>x. f x = k) xs \<Longrightarrow> sum_list (map f xs) = length xs * k"
  by (induction xs) simp_all

lemma two_elems: "length xs = 2 \<Longrightarrow> xs = [xs ! 0, xs ! 1]"
  by (cases xs; cases "tl xs") auto

lemma one_elem: "length xs = 1 \<Longrightarrow> xs = [xs ! 0]"
  by (cases xs) auto

lemma base_and_own_mb:
  assumes "base_and_own st base L c"
  shows "layers_mb st 1 c = L"
    and "layers_mb st 0 c = size_mb (layer_heap st ! base) + L"
proof -
  from assms have "layers c = [base, layers c ! 1]"
    using two_elems[of "layers c"] by (auto simp: base_and_own_def)
  moreover from assms have "size_mb (layer_heap st ! (layers c ! 1)) = L"
    by (simp add: base_and_own_def)
  ultimately obtain u where l: "layers c = [base, u]" and s: "size_mb (layer_heap st ! u) = L"
    by blast
  show "layers_mb st 1 c = L" by (simp add: layers_mb_def l s)
  show "layers_mb st 0 c = size_mb (layer_heap st ! base) + L" by (simp add: layers_mb_def l s)
qed

lemma base_only_mb:
  assumes "base_only st B c"
  shows "layers_mb st 0 c = B"
proof -
  from assms have "layers c = [layers c ! 0]"
    using one_elem[of "layers c"] by (auto simp: base_only_def)
  moreover from assms have "size_mb (layer_heap st ! (layers c ! 0)) = B"
    by (simp add: base_only_def)
  ultimately obtain u where l: "layers c = [u]" and s: "size_mb (layer_heap st ! u) = B"
    by blast
  show ?thesis by (simp add: layers_mb_def l s)
qed

lemma storage_layered:
  assumes "list_all (base_and_own st base L) cs"
    and "base < length (layer_heap st)" and "size_mb (layer_heap st ! base) = B"
    and "B < SIZE_MOD"
  shows "calculate_storage_cow st cs (int (length cs)) base =
           Inr ((B + length cs * L) mod SIZE_MOD)"
    and "calculate_storage_no_cow st cs (int (length cs)) =
           Inr ((length cs * (B + L)) mod SIZE_MOD)"
proof -
  have ok: "list_all (container_ok st) cs"
    using assms(1) by (simp add: list_all_iff base_and_own_def)
  have m1: "list_all (\<lambda>c. layers_mb st 1 c = L) cs"
    using assms(1) base_and_own_mb(1) by (auto simp: list_all_iff)
  have m0: "list_all (\<lambda>c. layers_mb st 0 c = B + L) cs"
    using assms(1,3) base_and_own_mb(2) by (auto simp: list_all_iff)
  show "calculate_storage_cow st cs (int (length cs)) base =
           Inr ((B + length cs * L) mod SIZE_MOD)"
    using sum_containers_eq[OF ok, of 0 B 1] assms(2,3,4) sum_list_const[OF m1]
    by (simp add: calculate_storage_cow_def)
  have "(0::nat) < SIZE_MOD" by (simp add: SIZE_MOD_def)
  from sum_containers_eq[OF ok _ this, of 0 0] sum_list_const[OF m0]
  show "calculate_storage_no_cow st cs (int (length cs)) =
           Inr ((length cs * (B + L)) mod SIZE_MOD)"
    by (simp add: calculate_storage_no_cow_def)
qed

lemma storage_base_only:
  assumes "list_all (base_only st B) cs"
  shows "calculate_storage_no_cow st cs (int (length cs)) = Inr ((length cs * B) mod SIZE_MOD)"
proof -
  have ok: "list_all (container_ok st) cs"
    using assms(1) by (simp add: list_all_iff base_only_def)
  have m0: "list_all (\<lambda>c. layers_mb st 0 c = B) cs"
    using assms(1) base_only_mb by (auto simp: list_all_iff)
  have "(0::nat) < SIZE_MOD" by (simp add: SIZE_MOD_def)
  from sum_containers_eq[OF ok _ this, of 0 0] sum_list_const[OF m0]
  show ?thesis by (simp add: calculate_storage_no_cow_def)
qed

lemma container_ok_grow:
  "container_ok st c \<Longrightarrow> layer_heap st' = layer_heap st @ xs \<Longrightarrow> container_ok st' c"
  by (auto simp: container_ok_def list_all_iff)

lemma base_and_own_grow:
  assumes "base_and_own st base L c" and "layer_heap st' = layer_heap st @ xs"
  shows "base_and_own st' base L c"
proof -
  from assms(1) have "layers c ! 1 < length (layer_heap st)"
    by (simp add: base_and_own_def container_ok_def list_all_length)
  with assms container_ok_grow[OF _ assms(2)] show ?thesis
    by (simp add: base_and_own_def nth_append)
qed

lemma base_only_grow:
  assumes "base_only st B c" and "layer_heap st' = layer_heap st @ xs"
  shows "base_only st' B c"
proof -
  from assms(1) have "layers c ! 0 < length (layer_heap st)"
    by (simp add: base_only_def container_ok_def list_all_length)
  with assms container_ok_grow[OF _ assms(2)] show ?thesis
    by (simp add: base_only_def nth_append)
qed

lemma new_container_cow_ok:
  assumes "3 \<le> room st" and "sh < length (layer_heap st)"
  shows "\<exists>c st' l. new_container_cow i sh st = Ok c st' \<and> base_and_own st' sh 3 c \<and>
           layer_heap st' = layer_heap st @ [l] \<and> room st' = room st - 3"
  using assms
  by (auto simp: new_container_cow_def create_container_layer_def new_layer_def alloc_def
      base_and_own_def container_ok_def nth_append)

lemma new_container_no_cow_ok:
  assumes "3 \<le> room st"
  shows "\<exists>c st' l. new_container_no_cow i st = Ok c st' \<and> base_only st' 120 c \<and>
           layer_heap st' = layer_heap st @ [l] \<and> room st' = room st - 3"
  using assms
  by (auto simp: new_container_no_cow_def create_ubuntu_layer_def new_layer_def alloc_def
      base_only_def container_ok_def nth_append)

lemma create_cow_from_ok:
  assumes "3 * nat (count - i) \<le> room st" and "sh < length (layer_heap st)"
    and "list_all (base_and_own st sh 3) acc"
  shows "\<exists>cs st' xs. create_cow_from i count sh acc st = Ok cs st' \<and>
           length cs = length acc + nat (count - i) \<and> list_all (base_and_own st' sh 3) cs \<and>
           layer_heap st' = layer_heap st @ xs \<and> room st' = room st - 3 * nat (count - i)"
  using assms
proof (induction "nat (count - i)" arbitrary: i acc st)
  case 0
  then have "\<not> i < count" by simp
  with 0 show ?case by (subst create_cow_from.simps) simp
next
  case (Suc n)
  then have lt: "i < count" and n: "n = nat (count - (i + 1))" by simp_all
  have r: "3 \<le> room st" using Suc(2,3) by simp
  from new_container_cow_ok[OF r Suc(4), of i]
  obtain c st1 l where c: "new_container_cow i sh st = Ok c st1" "base_and_own st1 sh 3 c"
    "layer_heap st1 = layer_heap st @ [l]" "room st1 = room st - 3" by blast
  have acc1: "list_all (base_and_own st1 sh 3) (acc @ [c])"
    using Suc(5) c(2) base_and_own_grow[OF _ c(3)] by (auto simp: list_all_iff)
  have r1: "3 * nat (count - (i + 1)) \<le> room st1" using Suc(2,3) c(4) by simp
  have sh1: "sh < length (layer_heap st1)" using Suc(4) c(3) by simp
  from Suc(1)[OF n r1 sh1 acc1]
  obtain cs st' xs where k: "create_cow_from (i + 1) count sh (acc @ [c]) st1 = Ok cs st'"
    "length cs = length (acc @ [c]) + nat (count - (i + 1))"
    "list_all (base_and_own st' sh 3) cs" "layer_heap st' = layer_heap st1 @ xs"
    "room st' = room st1 - 3 * nat (count - (i + 1))" by blast
  have "create_cow_from i count sh acc st = Ok cs st'"
    using lt c(1) k(1) by (subst create_cow_from.simps) simp
  moreover have "length cs = length acc + nat (count - i)" using k(2) lt by simp
  moreover have "layer_heap st' = layer_heap st @ (l # xs)" using k(4) c(3) by simp
  moreover have "room st' = room st - 3 * nat (count - i)" using k(5) c(4) Suc(2) by simp
  ultimately show ?case using k(3) by blast
qed

lemma create_no_cow_from_ok:
  assumes "3 * nat (count - i) \<le> room st" and "list_all (base_only st 120) acc"
  shows "\<exists>cs st' xs. create_no_cow_from i count acc st = Ok cs st' \<and>
           length cs = length acc + nat (count - i) \<and> list_all (base_only st' 120) cs \<and>
           layer_heap st' = layer_heap st @ xs \<and> room st' = room st - 3 * nat (count - i)"
  using assms
proof (induction "nat (count - i)" arbitrary: i acc st)
  case 0
  then have "\<not> i < count" by simp
  with 0 show ?case by (subst create_no_cow_from.simps) simp
next
  case (Suc n)
  then have lt: "i < count" and n: "n = nat (count - (i + 1))" by simp_all
  have r: "3 \<le> room st" using Suc(2,3) by simp
  from new_container_no_cow_ok[OF r, of i]
  obtain c st1 l where c: "new_container_no_cow i st = Ok c st1" "base_only st1 120 c"
    "layer_heap st1 = layer_heap st @ [l]" "room st1 = room st - 3" by blast
  have acc1: "list_all (base_only st1 120) (acc @ [c])"
    using Suc(4) c(2) base_only_grow[OF _ c(3)] by (auto simp: list_all_iff)
  have r1: "3 * nat (count - (i + 1)) \<le> room st1" using Suc(2,3) c(4) by simp
  from Suc(1)[OF n r1 acc1]
  obtain cs st' xs where k: "create_no_cow_from (i + 1) count (acc @ [c]) st1 = Ok cs st'"
    "length cs = length (acc @ [c]) + nat (count - (i + 1))"
    "list_all (base_only st' 120) cs" "layer_heap st' = layer_heap st1 @ xs"
    "room st' = room st1 - 3 * nat (count - (i + 1))" by blast
  have "create_no_cow_from i count acc st = Ok cs st'"
    using lt c(1) k(1) by (subst create_no_cow_from.simps) simp
  moreover have "length cs = length acc + nat (count - i)" using k(2) lt by simp
  moreover have "layer_heap st' = layer_heap st @ (l # xs)" using k(4) c(3) by simp
  moreover have "room st' = room st - 3 * nat (count - i)" using k(5) c(4) Suc(2) by simp
  ultimately show ?case using k(3) by blast
qed

lemma alloc_array_ok:
  "0 < room st \<Longrightarrow> alloc_array n st = Inr (st\<lparr>room := room st - 1\<rparr>)"
  by (simp add: alloc_array_def alloc_def)

lemma main_storage_eq:
  assumes "0 \<le> n" and "6 * nat n + 3 \<le> room st"
  shows "main_storage n st =
           Inr ((nat n * 120) mod SIZE_MOD, (120 + nat n * 3) mod SIZE_MOD)"
proof -
  let ?st0 = "st\<lparr>room := room st - 1\<rparr>"
  have a0: "alloc_array n st = Inr ?st0" using assms(2) by (simp add: alloc_array_ok)
  have r0: "3 * nat (n - 0) \<le> room ?st0" using assms by simp
  from create_no_cow_from_ok[OF r0, of "[]"]
  obtain cs1 st1 where a: "create_containers_no_cow n ?st0 = Ok cs1 st1" "length cs1 = nat n"
    "list_all (base_only st1 120) cs1" "room st1 = room ?st0 - 3 * nat n"
    by (auto simp: create_containers_no_cow_def)
  from storage_base_only[OF a(3)] a(2) assms(1)
  have t1: "calculate_storage_no_cow st1 cs1 n = Inr ((nat n * 120) mod SIZE_MOD)" by simp
  let ?sh = "length (layer_heap st1)"
  obtain st2 l where b: "create_ubuntu_layer st1 = Ok ?sh st2" "layer_heap st2 = layer_heap st1 @ [l]"
    "size_mb l = 120" "room st2 = room st1 - 1"
    using a(4) assms(2)
    by (auto simp: create_ubuntu_layer_def new_layer_def alloc_def)
  let ?st2' = "st2\<lparr>room := room st2 - 1\<rparr>"
  have a2: "alloc_array n st2 = Inr ?st2'" using b(4) a(4) assms(2) by (simp add: alloc_array_ok)
  have r2: "3 * nat (n - 0) \<le> room ?st2'" using b(4) a(4) assms by simp
  have sh2: "?sh < length (layer_heap ?st2')" using b(2) by simp
  from create_cow_from_ok[OF r2 sh2, of "[]"]
  obtain cs3 st3 xs where c: "create_containers_cow n ?sh ?st2' = Ok cs3 st3" "length cs3 = nat n"
    "list_all (base_and_own st3 ?sh 3) cs3" "layer_heap st3 = layer_heap ?st2' @ xs"
    by (auto simp: create_containers_cow_def)
  have sz: "?sh < length (layer_heap st3)" "size_mb (layer_heap st3 ! ?sh) = 120"
    using c(4) b(2,3) by (simp_all add: nth_append)
  have "(120::nat) < SIZE_MOD" by (simp add: SIZE_MOD_def)
  from storage_layered(1)[OF c(3) sz this] c(2) assms(1)
  have t2: "calculate_storage_cow st3 cs3 n ?sh = Inr ((120 + nat n * 3) mod SIZE_MOD)" by simp
  show ?thesis using a0 a(1) t1 b(1) a2 c(1) t2 by (simp add: main_storage_def)
qed

text \<open>
  The run of \<^verbatim>\<open>main\<close>, with \<^verbatim>\<open>CONTAINER_COUNT = 10\<close>: the containers it builds without
  copy-on-write have the Ubuntu layer only, so \<^verbatim>\<open>storage_no_cow\<close> is 1200.
\<close>

lemma main_storage_totals:
  "main_storage 10 \<lparr>layer_heap = [], room = 63\<rparr> = Inr (1200, 150)"
proof -
  have "main_storage 10 \<lparr>layer_heap = [], room = 63\<rparr> =
          Inr ((nat 10 * 120) mod SIZE_MOD, (120 + nat 10 * 3) mod SIZE_MOD)"
    by (rule main_storage_eq) simp_all
  then show ?thesis by (simp add: SIZE_MOD_def)
qed

section \<open>Reference accounting\<close>

text \<open>
  Claim C1. Start from one successful \<^verbatim>\<open>cow_create\<close> and run any script of shares
  (\<^verbatim>\<open>cow_copy\<close>) and releases (\<^verbatim>\<open>cow_free\<close>) on outstanding handles, short enough for
  the \<^verbatim>\<open>int\<close> counter. The script runs without undefined behaviour, and in the state it
  reaches: while a handle is outstanding the payload is live, nothing was freed, and the
  shared counter is the number of outstanding handles (so at least 1); once no handle
  is outstanding the payload is gone and the run freed exactly the payload and the
  counter, each once. As this holds after every script, hence after every prefix of
  one, the payload is deallocated exactly by the release of the last handle.
\<close>

theorem refcount_accounting:
  assumes "cow_create n s0 = Ok a s1" and "data a \<noteq> NULL"
    and "share_release_script 1 ops" and "int (length ops) < INT_MAX"
  shows "\<exists>hs s. run asz ops ([a], s1) = Ok () (hs, s) \<and> set hs \<subseteq> {a} \<and>
           (if hs = []
            then blk s (data a) = None \<and> blk s (ref_count a) = None \<and>
                 freed s = freed s0 @ [data a, ref_count a]
            else blk s (data a) \<noteq> None \<and> share_count s a = Some (int (length hs)) \<and>
                 1 \<le> int (length hs) \<and> freed s = freed s0)"
proof -
  have len: "share_release_script (length [a]) ops"
    "int (length [a]) + int (length ops) \<le> INT_MAX"
    using assms(3,4) by simp_all
  from run_share_release[OF len cow_create_ok[OF assms(1,2)], of asz]
  obtain hs s where r: "run asz ops ([a], s1) = Ok () (hs, s)"
    and sb: "shared_by a (freed s0) (hs, s)"
    by blast
  from sb have "set hs \<subseteq> {a} \<and>
           (if hs = []
            then blk s (data a) = None \<and> blk s (ref_count a) = None \<and>
                 freed s = freed s0 @ [data a, ref_count a]
            else blk s (data a) \<noteq> None \<and> share_count s a = Some (int (length hs)) \<and>
                 1 \<le> int (length hs) \<and> freed s = freed s0)"
    by (cases hs) (auto simp: shared_by_def share_count_eq)
  with r show ?thesis by blast
qed

theorem refcount_accounting_witness:
  "cow_create 2 (init_mem 100) = Ok ex_handle ex_created \<and> data ex_handle \<noteq> NULL \<and>
   share_release_script 1 ex_script \<and> int (length ex_script) < INT_MAX \<and>
   (\<exists>s. run 2 ex_script ([ex_handle], ex_created) = Ok () ([], s) \<and>
        blk s (data ex_handle) = None \<and> freed s = [1, 2])"
proof -
  have c: "cow_create 2 (init_mem 100) = Ok ex_handle ex_created"
    by (simp add: eval_defs ex_handle_def ex_created_def)
  have d: "data ex_handle \<noteq> NULL" by (simp add: ex_handle_def NULL_def)
  have s: "share_release_script 1 ex_script" by (simp add: ex_script_def)
  have l: "int (length ex_script) < INT_MAX" by (simp add: ex_script_def INT_MAX_def)
  have e: "run 2 ex_script ([ex_handle], ex_created) =
      Ok () ([], \<lparr>heap = [None, None], avail = 100, freed = [1, 2]\<rparr>)"
    by (simp add: eval_defs ex_script_def ex_handle_def ex_created_def)
  have r: "\<exists>s. run 2 ex_script ([ex_handle], ex_created) = Ok () ([], s) \<and>
        blk s (data ex_handle) = None \<and> freed s = [1, 2]"
    using refcount_accounting[OF c d s l, of 2] e by auto
  from c d s l r show ?thesis by blast
qed

section \<open>Sharing copies nothing\<close>

text \<open>
  Claim C3. \<^verbatim>\<open>cow_copy\<close> on a handle whose counter can be read and is below \<open>INT_MAX\<close>
  returns a handle with the same \<^verbatim>\<open>data\<close> and \<^verbatim>\<open>ref_count\<close> pointers as its source. It
  allocates nothing (the heap has as many blocks as before and \<^verbatim>\<open>malloc\<close> has as much
  left), changes no block but the counter, raises the counter by exactly 1, and every
  index reads the same through the source and the copy, before and after the call.
\<close>

theorem cow_copy_shares:
  assumes "share_count s src = Some c" and "c < INT_MAX"
    and "data src \<noteq> ref_count src"
  shows "\<exists>dest s'. cow_copy src s = Ok dest s' \<and>
           dest = src \<and> data dest = data src \<and> ref_count dest = ref_count src \<and>
           length (heap s') = length (heap s) \<and> avail s' = avail s \<and> freed s' = freed s \<and>
           (\<forall>a. a \<noteq> ref_count src \<longrightarrow> blk s' a = blk s a) \<and>
           share_count s' dest = Some (c + 1) \<and>
           (\<forall>i. peek s' dest i = peek s' src i \<and> peek s' src i = peek s src i)"
  using assms
  apply (clarsimp simp: share_count_eq)
  apply (auto simp: cow_copy_def load_def store_def share_count_eq peek_def blk_set_blk
      split: option.splits res.splits)
  done

theorem cow_copy_shares_witness:
  "share_count ex_created ex_handle = Some 1 \<and> (1::int) < INT_MAX \<and>
   data ex_handle \<noteq> ref_count ex_handle \<and>
   (\<exists>s'. cow_copy ex_handle ex_created = Ok ex_handle s' \<and>
      share_count s' ex_handle = Some 2 \<and> length (heap s') = 2)"
proof -
  have h: "share_count ex_created ex_handle = Some 1" "(1::int) < INT_MAX"
    "data ex_handle \<noteq> ref_count ex_handle"
    by (simp_all add: eval_defs ex_handle_def ex_created_def)
  have "\<exists>s'. cow_copy ex_handle ex_created = Ok ex_handle s' \<and>
      share_count s' ex_handle = Some 2 \<and> length (heap s') = 2"
    using cow_copy_shares[OF h] by (auto simp: ex_created_def)
  with h show ?thesis by blast
qed

section \<open>The fork\<close>



text \<open>
  Claim C2, as stated, fails on the scenario it cites: a buffer of 4 elements
  \<open>[0, 1, 2, 3]\<close> with three handles. \<^verbatim>\<open>cow_ensure_unique\<close> copies \<^verbatim>\<open>ARRAY_SIZE\<close> =
  120000000 elements whatever the buffer holds. With memory for the duplicate,
  \<^verbatim>\<open>memcpy\<close> reads past the 4 cells of the payload, which is undefined behaviour; with
  the 80 bytes of \<open>ex_shared3\<close>, \<^verbatim>\<open>malloc\<close> fails and \<^verbatim>\<open>memcpy\<close> is called on the null
  pointer. In neither case does the call return.
\<close>

theorem fork_small_buffer_counterexample:
  "share_count ex_shared3_roomy ex_handle = Some 3 \<and>
   blk ex_shared3_roomy (data ex_handle) = Some [Some 0, Some 1, Some 2, Some 3] \<and>
   cow_ensure_unique (ex_handle, ex_shared3_roomy) =
     UB OutOfBounds
       (\<lparr>data = 3, ref_count = 2\<rparr>,
        \<lparr>heap = [Some [Some 0, Some 1, Some 2, Some 3], Some [Some 3],
                 Some (replicate 120000000 None)],
         avail = 20000000, freed = []\<rparr>) \<and>
   cow_ensure_unique (ex_handle, ex_shared3) =
     UB NullDeref (\<lparr>data = NULL, ref_count = 2\<rparr>, ex_shared3)"
  by (simp add: cow_ensure_unique_def cow_ensure_unique_at_def ARRAY_SIZE_bytes share_count_def
      malloc_def load_def memcpy_def blk_def NULL_def sizeof_int_def
      ex_shared3_roomy_def ex_shared3_def ex_handle_def)

text \<open>
  Claim C2, amended. Let \<open>k \<ge> 2\<close> handles share one payload (the counter holds \<open>k\<close>), let
  the payload have at least \<^verbatim>\<open>ARRAY_SIZE\<close> = 120000000 elements, and let \<^verbatim>\<open>malloc\<close> have
  room for the duplicate and its counter. Then \<^verbatim>\<open>cow_ensure_unique\<close> on one handle
  returns, the write \<^verbatim>\<open>data[i] = v\<close> through that handle at an index below \<^verbatim>\<open>ARRAY_SIZE\<close>
  is defined, and afterwards every index reads through every other handle of the
  payload what it read before, the counter of the original payload is exactly
  \<open>k - 1\<close>, and the writing handle reads \<open>v\<close> at \<open>i\<close>.
\<close>

theorem fork_isolation:
  assumes "share_count s a = Some k" and "2 \<le> k"
    and "blk s (data a) = Some xs" and "data a \<noteq> ref_count a"
    and "120000000 \<le> length xs"
    and "int_bytes ARRAY_SIZE + sizeof_int \<le> avail s"
    and "0 \<le> i" and "i < 120000000"
  shows "\<exists>a' s' s''. cow_ensure_unique (a, s) = Ok () (a', s') \<and>
           store (data a') i v s' = Ok () s'' \<and>
           (\<forall>b j. data b = data a \<longrightarrow> peek s'' b j = peek s b j) \<and>
           share_count s'' a = Some (k - 1) \<and> peek s'' a' i = Inr v"
proof -
  have c: "fork_cells ARRAY_SIZE \<le> length xs" using assms(5) by (simp add: ARRAY_SIZE_bytes)
  have i: "i < int (fork_cells ARRAY_SIZE)" using assms(8) by (simp add: ARRAY_SIZE_bytes)
  from fork_isolation_at[OF assms(1,2,3,4) c assms(6,7) i, of v]
  show ?thesis by (simp only: cow_ensure_unique_def)
qed

theorem fork_isolation_witness:
  "share_count (ex_big 120000000 500000000) ex_handle = Some 2 \<and> (2::int) \<le> 2 \<and>
   blk (ex_big 120000000 500000000) (data ex_handle) = Some (replicate 120000000 (Some 0)) \<and>
   data ex_handle \<noteq> ref_count ex_handle \<and>
   120000000 \<le> length (replicate 120000000 (Some (0::int))) \<and>
   int_bytes ARRAY_SIZE + sizeof_int \<le> avail (ex_big 120000000 500000000) \<and>
   (0::int) \<le> 7 \<and> (7::int) < 120000000 \<and>
   peek (ex_big 120000000 500000000) ex_handle 7 = Inr 0 \<and>
   (\<exists>a' s' s''. cow_ensure_unique (ex_handle, ex_big 120000000 500000000) = Ok () (a', s') \<and>
      store (data a') 7 99 s' = Ok () s'' \<and>
      peek s'' ex_handle 7 = Inr 0 \<and> peek s'' a' 7 = Inr 99 \<and>
      share_count s'' ex_handle = Some 1)"
proof -
  have h: "share_count (ex_big 120000000 500000000) ex_handle = Some 2" "(2::int) \<le> 2"
    "blk (ex_big 120000000 500000000) (data ex_handle) = Some (replicate 120000000 (Some 0))"
    "data ex_handle \<noteq> ref_count ex_handle"
    "120000000 \<le> length (replicate 120000000 (Some (0::int)))"
    "int_bytes ARRAY_SIZE + sizeof_int \<le> avail (ex_big 120000000 500000000)"
    "(0::int) \<le> 7" "(7::int) < 120000000"
    by (simp_all add: share_count_def load_def blk_def NULL_def ex_big_def ex_handle_def
        ARRAY_SIZE_bytes sizeof_int_def)
  have p: "peek (ex_big 120000000 500000000) ex_handle 7 = Inr 0"
    by (simp add: peek_def load_def blk_def NULL_def ex_big_def ex_handle_def)
  from fork_isolation[OF h, of 99] p
  have "\<exists>a' s' s''. cow_ensure_unique (ex_handle, ex_big 120000000 500000000) = Ok () (a', s') \<and>
      store (data a') 7 99 s' = Ok () s'' \<and>
      peek s'' ex_handle 7 = Inr 0 \<and> peek s'' a' 7 = Inr 99 \<and>
      share_count s'' ex_handle = Some 1"
    by auto
  with h p show ?thesis by blast
qed

section \<open>Allocation failure\<close>

text \<open>
  Claim C7, as stated, fails: \<^verbatim>\<open>cow_create\<close> checks neither \<^verbatim>\<open>malloc\<close>. With 10 bytes
  left, the payload of \<^verbatim>\<open>cow_create(4)\<close> cannot be obtained, and the call still returns
  normally, with a handle whose \<^verbatim>\<open>data\<close> is null and whose counter is allocated and set
  to 1.
\<close>

theorem cow_create_partial_counterexample:
  "avail (init_mem 10) < int_bytes 4 \<and>
   cow_create 4 (init_mem 10) =
     Ok \<lparr>data = NULL, ref_count = 1\<rparr> \<lparr>heap = [Some [Some 1]], avail = 6, freed = []\<rparr>"
  by (simp add: eval_defs)

text \<open>
  Claim C7, amended. For \<open>0 \<le> size\<close>, if the counter can be allocated, \<^verbatim>\<open>cow_create\<close>
  returns a handle whose counter holds 1 and leaves every existing block as it was. If
  the payload could be allocated too, it is a fresh block of exactly \<open>size\<close> cells (of
  indeterminate value) distinct from the counter. If the payload could not be
  allocated, no error is raised: the handle is returned with \<^verbatim>\<open>data\<close> null, and only the
  counter was allocated. (The case of a counter that cannot be allocated is left out.)
\<close>

theorem cow_create_result:
  assumes "0 \<le> n" and "n \<le> INT_MAX"
    and "sizeof_int \<le> (if int_bytes n \<le> avail s then avail s - int_bytes n else avail s)"
  shows "\<exists>a s'. cow_create n s = Ok a s' \<and> share_count s' a = Some 1 \<and>
           (if int_bytes n \<le> avail s
            then blk s' (data a) = Some (replicate (nat n) None) \<and> data a \<noteq> ref_count a \<and>
                 length (heap s') = length (heap s) + 2
            else data a = NULL \<and> length (heap s') = length (heap s) + 1) \<and>
           (\<forall>p. p \<le> length (heap s) \<longrightarrow> blk s' p = blk s p)"
proof -
  have "n < 2 ^ 62" using assms(2) by (simp add: INT_MAX_def)
  then have c: "int_bytes n div sizeof_int = nat n"
    using fork_cells_nat[OF assms(1)] by (simp add: fork_cells_def)
  show ?thesis
  proof (cases "int_bytes n \<le> avail s")
    case True
    with assms(3) c show ?thesis
      by (auto simp: cow_create_def malloc_def store_def blk_def set_blk_def NULL_def
          share_count_def load_def sizeof_int_def nth_append Let_def)
  next
    case False
    with assms(3) show ?thesis
      by (auto simp: cow_create_def malloc_def store_def blk_def set_blk_def NULL_def
          share_count_def load_def sizeof_int_def nth_append Let_def)
  qed
qed

theorem cow_create_result_witness:
  "(0::int) \<le> 4 \<and> 4 \<le> INT_MAX \<and>
   sizeof_int \<le> (if int_bytes 4 \<le> avail (init_mem 10) then avail (init_mem 10) - int_bytes 4
                  else avail (init_mem 10)) \<and>
   sizeof_int \<le> (if int_bytes 4 \<le> avail (init_mem 100) then avail (init_mem 100) - int_bytes 4
                  else avail (init_mem 100)) \<and>
   (\<exists>a s'. cow_create 4 (init_mem 10) = Ok a s' \<and> share_count s' a = Some 1 \<and> data a = NULL) \<and>
   (\<exists>a s'. cow_create 4 (init_mem 100) = Ok a s' \<and> share_count s' a = Some 1 \<and>
       blk s' (data a) = Some [None, None, None, None])"
proof -
  have h: "(0::int) \<le> 4" "4 \<le> INT_MAX"
    "sizeof_int \<le> (if int_bytes 4 \<le> avail (init_mem 10) then avail (init_mem 10) - int_bytes 4
                  else avail (init_mem 10))"
    and h': "sizeof_int \<le> (if int_bytes 4 \<le> avail (init_mem 100) then avail (init_mem 100) - int_bytes 4
                  else avail (init_mem 100))"
    by (simp_all add: eval_defs)
  have f: "\<not> int_bytes 4 \<le> avail (init_mem 10)" and g: "int_bytes 4 \<le> avail (init_mem 100)"
    by (simp_all add: eval_defs)
  have r: "replicate (nat 4) None = [None, None, None, None :: int option]"
    by (simp add: replicate_num)
  have a: "\<exists>a s'. cow_create 4 (init_mem 10) = Ok a s' \<and> share_count s' a = Some 1 \<and> data a = NULL"
    using cow_create_result[OF h] f by auto
  have b: "\<exists>a s'. cow_create 4 (init_mem 100) = Ok a s' \<and> share_count s' a = Some 1 \<and>
       blk s' (data a) = Some [None, None, None, None]"
    using cow_create_result[OF h(1,2) h'] g r by auto
  from h h' a b show ?thesis by blast
qed

text \<open>
  Claim C8 is broken by the code. \<^verbatim>\<open>cow_ensure_unique\<close> assigns the result of \<^verbatim>\<open>malloc\<close>
  to \<^verbatim>\<open>arr->data\<close> before anything is checked. On a payload of \<^verbatim>\<open>ARRAY_SIZE\<close> cells
  shared by two handles: with no memory left, the handle has lost its payload pointer
  when \<^verbatim>\<open>memcpy\<close> is called on the null pointer; with room for the duplicate but not
  for its counter, the handle points to the duplicate, the shared counter has gone
  down to 1, and the null \<^verbatim>\<open>ref_count\<close> is dereferenced.
\<close>

theorem fork_failure_not_atomic:
  "cow_ensure_unique (ex_handle, ex_big 120000000 0) =
     UB NullDeref (\<lparr>data = NULL, ref_count = 2\<rparr>, ex_big 120000000 0) \<and>
   cow_ensure_unique (ex_handle, ex_big 120000000 480000000) =
     UB NullDeref
       (\<lparr>data = 3, ref_count = NULL\<rparr>,
        \<lparr>heap = [Some (replicate 120000000 (Some 0)), Some [Some 1],
                 Some (replicate 120000000 (Some 0))],
         avail = 0, freed = []\<rparr>)"
  by (simp add: cow_ensure_unique_def cow_ensure_unique_at_def fork_counter_def ARRAY_SIZE_bytes
     malloc_def load_def store_def memcpy_def blk_def set_blk_def NULL_def sizeof_int_def
     INT_MIN_def ex_big_def ex_handle_def)

section \<open>The size of the fork\<close>

text \<open>
  Claim C10, as stated, fails in one direction: a buffer need not have been created
  with \<open>size = ARRAY_SIZE\<close> for the fork to stay within bounds. On a payload of
  120000001 cells the fork is defined; it duplicates the first 120000000
  cells only.
\<close>

theorem fork_larger_buffer_counterexample:
  "blk (ex_big 120000001 500000000) (data ex_handle) = Some (replicate 120000001 (Some 0)) \<and>
   int 120000001 \<noteq> ARRAY_SIZE \<and>
   cow_ensure_unique (ex_handle, ex_big 120000001 500000000) =
     Ok () (\<lparr>data = 3, ref_count = 4\<rparr>,
            \<lparr>heap = [Some (replicate 120000001 (Some 0)), Some [Some 1],
                     Some (replicate 120000000 (Some 0)), Some [Some 1]],
             avail = 19999996, freed = []\<rparr>)"
proof -
  have a: "blk (ex_big 120000001 500000000) (data ex_handle) =
      Some (replicate 120000001 (Some 0))"
    by (simp add: blk_def NULL_def ex_big_def ex_handle_def)
  have b: "int 120000001 \<noteq> ARRAY_SIZE" by (simp add: ARRAY_SIZE_def)
  have c: "cow_ensure_unique (ex_handle, ex_big 120000001 500000000) =
     Ok () (\<lparr>data = 3, ref_count = 4\<rparr>,
            \<lparr>heap = [Some (replicate 120000001 (Some 0)), Some [Some 1],
                     Some (replicate 120000000 (Some 0)), Some [Some 1]],
             avail = 19999996, freed = []\<rparr>)"
    by (simp add: cow_ensure_unique_def cow_ensure_unique_at_def fork_counter_def
        ARRAY_SIZE_bytes malloc_def load_def store_def memcpy_def blk_def set_blk_def NULL_def
        sizeof_int_def INT_MIN_def ex_big_def ex_handle_def)
  from a b c show ?thesis by (simp only: simp_thms)
qed

text \<open>
  Claim C10, amended. The handle records no size, and \<^verbatim>\<open>cow_ensure_unique\<close> on a shared
  handle (with memory for the duplicate and its counter) always allocates and copies
  exactly \<^verbatim>\<open>ARRAY_SIZE\<close> = 120000000 cells, whatever the length of the payload: the fork
  is within bounds exactly when the payload has at least 120000000 cells, and out of
  bounds (undefined behaviour in \<^verbatim>\<open>memcpy\<close>) when it has fewer; the new payload is the
  first 120000000 cells of the old one, so it is a duplicate of the whole payload
  exactly when the buffer was created with \<open>size = ARRAY_SIZE\<close>.
\<close>

theorem fork_fixed_size:
  assumes "share_count s a = Some c" and "1 < c"
    and "blk s (data a) = Some xs" and "data a \<noteq> ref_count a"
    and "int_bytes ARRAY_SIZE + sizeof_int \<le> avail s"
  shows "if length xs < 120000000
         then \<exists>st. cow_ensure_unique (a, s) = UB OutOfBounds st
         else \<exists>a' s'. cow_ensure_unique (a, s) = Ok () (a', s') \<and>
                blk s' (data a') = Some (take 120000000 xs) \<and>
                (blk s' (data a') = Some xs \<longleftrightarrow> length xs = 120000000)"
proof (cases "length xs < 120000000")
  case True
  then have "length xs < fork_cells ARRAY_SIZE" by (simp add: ARRAY_SIZE_bytes)
  from fork_out_of_bounds[OF assms(1,2,3) this] assms(5) True
  show ?thesis by (auto simp: cow_ensure_unique_def)
next
  case False
  then have le: "fork_cells ARRAY_SIZE \<le> length xs" by (simp add: ARRAY_SIZE_bytes)
  have "take 120000000 xs = xs \<longleftrightarrow> length xs = 120000000"
    using False by (metis length_take min.absorb2 not_less take_all order_refl)
  with ensure_unique_fork[OF assms(1,2,3,4) le assms(5)] False
  show ?thesis by (auto simp: cow_ensure_unique_def ARRAY_SIZE_bytes)
qed

theorem fork_fixed_size_witness:
  "share_count (ex_big 120000000 500000000) ex_handle = Some 2 \<and> (1::int) < 2 \<and>
   blk (ex_big 120000000 500000000) (data ex_handle) = Some (replicate 120000000 (Some 0)) \<and>
   data ex_handle \<noteq> ref_count ex_handle \<and>
   int_bytes ARRAY_SIZE + sizeof_int \<le> avail (ex_big 120000000 500000000) \<and>
   (\<exists>a' s'. cow_ensure_unique (ex_handle, ex_big 120000000 500000000) = Ok () (a', s') \<and>
      blk s' (data a') = Some (replicate 120000000 (Some 0))) \<and>
   share_count (ex_big 3 500000000) ex_handle = Some 2 \<and>
   blk (ex_big 3 500000000) (data ex_handle) = Some (replicate 3 (Some 0)) \<and>
   int_bytes ARRAY_SIZE + sizeof_int \<le> avail (ex_big 3 500000000) \<and>
   (\<exists>st. cow_ensure_unique (ex_handle, ex_big 3 500000000) = UB OutOfBounds st)"
proof -
  have h: "share_count (ex_big 120000000 500000000) ex_handle = Some 2" "(1::int) < 2"
    "blk (ex_big 120000000 500000000) (data ex_handle) = Some (replicate 120000000 (Some 0))"
    "data ex_handle \<noteq> ref_count ex_handle"
    "int_bytes ARRAY_SIZE + sizeof_int \<le> avail (ex_big 120000000 500000000)"
    by (simp_all add: share_count_def load_def blk_def NULL_def ex_big_def ex_handle_def
        ARRAY_SIZE_bytes sizeof_int_def)
  have k: "share_count (ex_big 3 500000000) ex_handle = Some 2"
    "blk (ex_big 3 500000000) (data ex_handle) = Some (replicate 3 (Some 0))"
    "int_bytes ARRAY_SIZE + sizeof_int \<le> avail (ex_big 3 500000000)"
    by (simp_all add: share_count_def load_def blk_def NULL_def ex_big_def ex_handle_def
        ARRAY_SIZE_bytes sizeof_int_def)
  have a: "\<exists>a' s'. cow_ensure_unique (ex_handle, ex_big 120000000 500000000) = Ok () (a', s') \<and>
      blk s' (data a') = Some (replicate 120000000 (Some 0))"
    using fork_fixed_size[OF h] by auto
  have b: "\<exists>st. cow_ensure_unique (ex_handle, ex_big 3 500000000) = UB OutOfBounds st"
    using fork_fixed_size[OF k(1) h(2) k(2) h(4) k(3)] by simp
  from h k a b show ?thesis by blast
qed

section \<open>Writes\<close>

text \<open>
  Claim C4, as stated, fails: a write is the plain assignment \<^verbatim>\<open>h.data[idx] = v\<close>, which
  checks nothing. The script that shares a payload and then writes through the copy
  without \<^verbatim>\<open>cow_ensure_unique\<close> runs without undefined behaviour, writes a payload
  whose counter is 2, and changes what the other handle reads.
\<close>

theorem shared_write_counterexample:
  "\<not> writes_exclusive 4 [Share 0, Write 1 0 99] ([ex_handle], ex_one) \<and>
   peek ex_one ex_handle 0 = Inr 0 \<and>
   run 4 [Share 0, Write 1 0 99] ([ex_handle], ex_one) =
     Ok () ([ex_handle, ex_handle], ex_overwritten) \<and>
   share_count ex_overwritten ex_handle = Some 2 \<and> peek ex_overwritten ex_handle 0 = Inr 99"
  by (simp add: eval_defs ex_handle_def ex_one_def ex_overwritten_def)

text \<open>
  Claim C4, amended. Exclusivity is the caller's discipline, and \<^verbatim>\<open>benchmark_cow\<close>
  keeps it: the modification loop of a copy calls \<^verbatim>\<open>cow_ensure_unique\<close> once, before its
  first write, and then only writes through that copy. Run on any handle with distinct
  pointers whose counter is at least 1, every write of that loop goes to a payload
  whose counter is 1.
\<close>

theorem benchmark_writes_exclusive:
  assumes "i < length hs" and "share_count s (hs ! i) = Some c" and "1 \<le> c"
    and "data (hs ! i) \<noteq> ref_count (hs ! i)"
  shows "writes_exclusive asz (modify_script asz i rs) (hs, s)"
proof (cases "rs = []")
  case True
  then show ?thesis by (simp add: modify_script_def)
next
  case False
  have eq: "map (\<lambda>(r1, r2). Write i (c_rem r1 asz) r2) rs =
        map (\<lambda>(idx, v). Write i idx v) (map (\<lambda>(r1, r2). (c_rem r1 asz, r2)) rs)"
    by (simp add: case_prod_unfold)
  have "modify_script asz i rs =
        EnsureUnique i # map (\<lambda>(idx, v). Write i idx v) (map (\<lambda>(r1, r2). (c_rem r1 asz, r2)) rs)"
    unfolding modify_script_def eq using False by (simp only: if_False)
  then show ?thesis
    using guarded_writes_exclusive[OF assms, of asz "map (\<lambda>(r1, r2). (c_rem r1 asz, r2)) rs"]
    by (simp only:)
qed

theorem benchmark_writes_exclusive_witness:
  "(1::nat) < length [ex_handle, ex_handle, ex_handle] \<and>
   share_count ex_shared3 ([ex_handle, ex_handle, ex_handle] ! 1) = Some 3 \<and> (1::int) \<le> 3 \<and>
   data ([ex_handle, ex_handle, ex_handle] ! 1) \<noteq> ref_count ([ex_handle, ex_handle, ex_handle] ! 1) \<and>
   writes_exclusive 4 (modify_script 4 1 [(5, 99), (2, 7)]) ([ex_handle, ex_handle, ex_handle], ex_shared3) \<and>
   modify_script 4 1 [(5, 99), (2, 7)] = [EnsureUnique 1, Write 1 1 99, Write 1 2 7]"
proof -
  have h: "(1::nat) < length [ex_handle, ex_handle, ex_handle]"
    "share_count ex_shared3 ([ex_handle, ex_handle, ex_handle] ! 1) = Some 3" "(1::int) \<le> 3"
    "data ([ex_handle, ex_handle, ex_handle] ! 1) \<noteq> ref_count ([ex_handle, ex_handle, ex_handle] ! 1)"
    by (simp_all add: eval_defs ex_handle_def ex_shared3_def)
  have m: "modify_script 4 1 [(5, 99), (2, 7)] = [EnsureUnique 1, Write 1 1 99, Write 1 2 7]"
    by (simp add: modify_script_def c_rem_def)
  from benchmark_writes_exclusive[OF h, of 4 "[(5, 99), (2, 7)]"] h m show ?thesis by simp
qed

text \<open>
  Claim C9, as stated, fails: nothing checks an index, and nothing is reported. A write
  or a read at index 4 or \<open>-1\<close> of a payload of 4 cells is undefined behaviour.
\<close>

theorem write_out_of_range_counterexample:
  "blk ex_one (data ex_handle) = Some [Some 0, Some 1, Some 2, Some 3] \<and>
   step 4 (Write 0 4 7) ([ex_handle], ex_one) = UB OutOfBounds ([ex_handle], ex_one) \<and>
   step 4 (Write 0 (- 1) 7) ([ex_handle], ex_one) = UB OutOfBounds ([ex_handle], ex_one) \<and>
   load (data ex_handle) 4 ex_one = UB OutOfBounds ex_one"
  by (simp add: eval_defs ex_handle_def ex_one_def)

text \<open>
  Claim C9, amended. \<^verbatim>\<open>benchmark_cow\<close> writes at \<^verbatim>\<open>rand() % ARRAY_SIZE\<close> only, and
  \<^verbatim>\<open>rand()\<close> is never negative: the index lies in \<open>[0, ARRAY_SIZE)\<close>, and on a payload
  of \<^verbatim>\<open>ARRAY_SIZE\<close> cells the write is defined, changes that one cell and leaves the
  counter and every other block as they were. At an index outside the payload the write
  is undefined behaviour; no error is reported to the caller.
\<close>

theorem benchmark_store_in_range:
  assumes "0 \<le> r" and "0 < asz" and "blk s (data a) = Some xs" and "int (length xs) = asz"
    and "data a \<noteq> ref_count a"
  shows "0 \<le> c_rem r asz \<and> c_rem r asz < asz \<and>
         (\<exists>s'. store (data a) (c_rem r asz) v s = Ok () s' \<and>
            blk s' (data a) = Some (xs[nat (c_rem r asz) := Some v]) \<and>
            share_count s' a = share_count s a \<and>
            (\<forall>p. p \<noteq> data a \<longrightarrow> blk s' p = blk s p)) \<and>
         (\<forall>idx. idx < 0 \<or> int (length xs) \<le> idx \<longrightarrow>
            store (data a) idx v s = UB OutOfBounds s)"
proof -
  note rg = c_rem_range[OF assms(1,2)]
  let ?s' = "set_blk (data a) (xs[nat (c_rem r asz) := Some v]) s"
  have st: "store (data a) (c_rem r asz) v s = Ok () ?s'"
    using rg assms(3,4) by (simp add: store_Ok_iff)
  have b: "\<And>p. blk ?s' p = (if p = data a then Some (xs[nat (c_rem r asz) := Some v]) else blk s p)"
    using assms(3) by (simp add: blk_set_blk)
  have "data a \<noteq> NULL" using blk_live_bound[OF assms(3)] by simp
  then have oob: "\<forall>idx. idx < 0 \<or> int (length xs) \<le> idx \<longrightarrow>
            store (data a) idx v s = UB OutOfBounds s"
    using assms(3) by (simp add: store_def)
  from rg st b store_keeps_count[OF st assms(5)] oob show ?thesis by simp
qed

theorem benchmark_store_in_range_witness:
  "(0::int) \<le> 5 \<and> (0::int) < 4 \<and>
   blk ex_one (data ex_handle) = Some [Some 0, Some 1, Some 2, Some 3] \<and>
   int (length [Some 0, Some 1, Some 2, Some (3::int)]) = 4 \<and>
   data ex_handle \<noteq> ref_count ex_handle \<and> c_rem 5 4 = 1 \<and>
   (\<exists>s'. store (data ex_handle) (c_rem 5 4) 99 ex_one = Ok () s' \<and>
      blk s' (data ex_handle) = Some [Some 0, Some 99, Some 2, Some 3] \<and>
      share_count s' ex_handle = Some 1)"
proof -
  have h: "(0::int) \<le> 5" "(0::int) < 4"
    "blk ex_one (data ex_handle) = Some [Some 0, Some 1, Some 2, Some 3]"
    "int (length [Some 0, Some 1, Some 2, Some (3::int)]) = 4"
    "data ex_handle \<noteq> ref_count ex_handle"
    by (simp_all add: eval_defs ex_handle_def ex_one_def)
  have c: "c_rem 5 4 = 1" by (simp add: c_rem_def)
  have sc: "share_count ex_one ex_handle = Some 1"
    by (simp add: eval_defs ex_handle_def ex_one_def)
  from benchmark_store_in_range[OF h, of 99] c sc
  have "\<exists>s'. store (data ex_handle) (c_rem 5 4) 99 ex_one = Ok () s' \<and>
      blk s' (data ex_handle) = Some [Some 0, Some 99, Some 2, Some 3] \<and>
      share_count s' ex_handle = Some 1"
    by auto
  with h c show ?thesis by blast
qed

section \<open>Aggregate accounting\<close>

text \<open>
  Claim C6. Take \<open>N\<close> containers that all have the shared base layer, of size \<open>B\<close>,
  first, and then one layer of their own, of size \<open>L\<close> (the sums staying below the
  range of \<^verbatim>\<open>size_t\<close>). On them \<^verbatim>\<open>calculate_storage_cow\<close> returns \<open>B + N * L\<close>, and
  \<^verbatim>\<open>calculate_storage_no_cow\<close>, which adds up every layer of every container, returns
  \<open>N * (B + L)\<close>. On the ten containers \<^verbatim>\<open>create_containers_cow\<close> builds on the Ubuntu
  layer these are 150 and 1230.
\<close>

theorem aggregate_accounting:
  assumes "list_all (base_and_own st base L) cs"
    and "base < length (layer_heap st)" and "size_mb (layer_heap st ! base) = B"
    and "B + length cs * L < SIZE_MOD" and "length cs * (B + L) < SIZE_MOD"
  shows "calculate_storage_cow st cs (int (length cs)) base = Inr (B + length cs * L) \<and>
         calculate_storage_no_cow st cs (int (length cs)) = Inr (length cs * (B + L))"
proof -
  have "B < SIZE_MOD" using assms(4) by simp
  from storage_layered[OF assms(1,2,3) this] assms(4,5) show ?thesis by simp
qed

theorem aggregate_accounting_witness:
  "list_all (base_and_own ex_layers 0 3) ex_containers \<and>
   0 < length (layer_heap ex_layers) \<and> size_mb (layer_heap ex_layers ! 0) = 120 \<and>
   120 + length ex_containers * 3 < SIZE_MOD \<and> length ex_containers * (120 + 3) < SIZE_MOD \<and>
   calculate_storage_cow ex_layers ex_containers 2 0 = Inr 126 \<and>
   calculate_storage_no_cow ex_layers ex_containers 2 = Inr 246 \<and>
   (\<exists>cs st. create_containers_cow 10 0 ex_base_store = Ok cs st \<and>
      calculate_storage_cow st cs 10 0 = Inr 150 \<and>
      calculate_storage_no_cow st cs 10 = Inr 1230)"
proof -
  have h: "list_all (base_and_own ex_layers 0 3) ex_containers"
    "0 < length (layer_heap ex_layers)" "size_mb (layer_heap ex_layers ! 0) = 120"
    "120 + length ex_containers * 3 < SIZE_MOD" "length ex_containers * (120 + 3) < SIZE_MOD"
    by (simp_all add: base_and_own_def container_ok_def ex_layers_def ex_containers_def
        SIZE_MOD_def)
  have two: "calculate_storage_cow ex_layers ex_containers 2 0 = Inr 126 \<and>
      calculate_storage_no_cow ex_layers ex_containers 2 = Inr 246"
    using aggregate_accounting[OF h] by (simp add: ex_containers_def)
  have r: "3 * nat (10 - 0) \<le> room ex_base_store" "0 < length (layer_heap ex_base_store)"
    by (simp_all add: ex_base_store_def)
  from create_cow_from_ok[OF r, of "[]"]
  obtain cs st xs where c: "create_containers_cow 10 0 ex_base_store = Ok cs st"
    "length cs = 10" "list_all (base_and_own st 0 3) cs"
    "layer_heap st = layer_heap ex_base_store @ xs"
    by (auto simp: create_containers_cow_def)
  have k: "0 < length (layer_heap st)" "size_mb (layer_heap st ! 0) = 120"
    "120 + length cs * 3 < SIZE_MOD" "length cs * (120 + 3) < SIZE_MOD"
    using c(2,4) by (simp_all add: ex_base_store_def SIZE_MOD_def)
  have ten: "calculate_storage_cow st cs 10 0 = Inr 150 \<and>
      calculate_storage_no_cow st cs 10 = Inr 1230"
    using aggregate_accounting[OF c(3) k] c(2) by simp
  from h two c(1) ten show ?thesis by blast
qed

end
